theory Spec2Isabelle
  imports Complex_Main "HOL-Library.Word" "HOL-Library.Log_Nat"
begin

unbundle bit_operations_syntax

section \<open>Machine types\<close>

text \<open>
  The target is a 32-bit machine: \<open>int\<close>, \<open>int32_t\<close> and the enumerations are 32-bit
  two's-complement words, on which negation, increment and decrement wrap around.
  \<open>uint64_t\<close> is a 64-bit word. Signed comparison is \<open><s\<close> and \<open>\<le>s\<close>, \<open>sint\<close> reads
  the signed value.
\<close>

type_synonym c_int = "32 word"
type_synonym int32_t = "32 word"
type_synonym uint32_t = "32 word"
type_synonym uint64_t = "64 word"

section \<open>Single-precision floating point\<close>

text \<open>
  A C \<open>float\<close> is held as its object representation, the 32 bits of an IEEE 754
  binary32 number. Arithmetic works on the decoded value and rounds every result to
  the nearest binary32 number, ties to even, as the default rounding mode does.
\<close>

type_synonym float = "32 word"

datatype fval = Finite rat | NegZero | PInf | NInf | NaN

definition pow2 :: "int \<Rightarrow> rat" where
  "pow2 n = (if 0 \<le> n then 2 ^ nat n else 1 / 2 ^ nat (- n))"

text \<open>Decoding: sign bit 31, biased exponent in bits 30..23, fraction in bits 22..0.\<close>

definition valof :: "float \<Rightarrow> fval" where
  "valof w =
    (let sgn = bit w 31;
         ex = uint (drop_bit 23 w AND 0xFF);
         frac = uint (w AND 0x7FFFFF)
     in if ex = 255 then (if frac = 0 then (if sgn then NInf else PInf) else NaN)
        else if ex = 0 then
          (if frac = 0 then (if sgn then NegZero else Finite 0)
           else Finite ((if sgn then - 1 else 1) * of_int frac * pow2 (- 149)))
        else Finite ((if sgn then - 1 else 1) * of_int (2 ^ 23 + frac) * pow2 (ex - 150)))"

text \<open>\<open>ilog2 x\<close> is the exponent \<open>e\<close> with \<open>2^e \<le> x < 2^(e+1)\<close>, for positive \<open>x\<close>.\<close>

definition ilog2 :: "rat \<Rightarrow> int" where
  "ilog2 x = (if 1 \<le> x then bitlen \<lfloor>x\<rfloor> - 1 else - bitlen (\<lceil>1 / x\<rceil> - 1))"

definition round_half_even :: "rat \<Rightarrow> int" where
  "round_half_even x =
    (let f = \<lfloor>x\<rfloor>; d = x - of_int f
     in if d < 1 / 2 then f else if 1 / 2 < d then f + 1
        else if even f then f else f + 1)"

text \<open>
  Rounding a non-zero rational to binary32: 24 significant bits, the exponent not
  below \<open>-126\<close> (subnormal numbers below that), overflow to infinity; a result that
  rounds to zero keeps the sign.
\<close>

definition round32 :: "rat \<Rightarrow> fval" where
  "round32 r =
    (if r = 0 then Finite 0
     else let m = \<bar>r\<bar>;
              e = max (ilog2 m) (- 126);
              ulp = pow2 (e - 23);
              v = of_int (round_half_even (m / ulp)) * ulp
          in if pow2 128 \<le> v then (if r < 0 then NInf else PInf)
             else if v = 0 then (if r < 0 then NegZero else Finite 0)
             else Finite (if r < 0 then - v else v))"

definition is_neg :: "fval \<Rightarrow> bool" where
  "is_neg x = (case x of Finite r \<Rightarrow> r < 0 | NegZero \<Rightarrow> True | PInf \<Rightarrow> False
                 | NInf \<Rightarrow> True | NaN \<Rightarrow> False)"

definition is_zero :: "fval \<Rightarrow> bool" where
  "is_zero x = (x = Finite 0 \<or> x = NegZero)"

definition is_inf :: "fval \<Rightarrow> bool" where
  "is_inf x = (x = PInf \<or> x = NInf)"

definition signed_zero :: "bool \<Rightarrow> fval" where
  "signed_zero neg = (if neg then NegZero else Finite 0)"

definition signed_inf :: "bool \<Rightarrow> fval" where
  "signed_inf neg = (if neg then NInf else PInf)"

definition rat_of_fval :: "fval \<Rightarrow> rat" where
  "rat_of_fval x = (case x of Finite r \<Rightarrow> r | _ \<Rightarrow> 0)"

text \<open>The C operators \<open>/\<close>, \<open>*\<close> and \<open><\<close> on \<open>float\<close>.\<close>

definition fdiv :: "fval \<Rightarrow> fval \<Rightarrow> fval" where
  "fdiv x y =
    (if x = NaN \<or> y = NaN then NaN
     else if is_inf x then (if is_inf y then NaN else signed_inf (is_neg x \<noteq> is_neg y))
     else if is_inf y then signed_zero (is_neg x \<noteq> is_neg y)
     else if is_zero y then (if is_zero x then NaN else signed_inf (is_neg x \<noteq> is_neg y))
     else if is_zero x then signed_zero (is_neg x \<noteq> is_neg y)
     else round32 (rat_of_fval x / rat_of_fval y))"

definition fmul :: "fval \<Rightarrow> fval \<Rightarrow> fval" where
  "fmul x y =
    (if x = NaN \<or> y = NaN then NaN
     else if is_inf x \<or> is_inf y then
       (if is_zero x \<or> is_zero y then NaN else signed_inf (is_neg x \<noteq> is_neg y))
     else if is_zero x \<or> is_zero y then signed_zero (is_neg x \<noteq> is_neg y)
     else round32 (rat_of_fval x * rat_of_fval y))"

definition flt :: "fval \<Rightarrow> fval \<Rightarrow> bool" where
  "flt x y =
    (if x = NaN \<or> y = NaN then False
     else if x = PInf \<or> y = NInf then False
     else if x = NInf \<or> y = PInf then True
     else rat_of_fval x < rat_of_fval y)"

text \<open>Conversion of an \<open>int\<close> to \<open>float\<close> rounds to the nearest binary32 number.\<close>

definition float_of_int :: "int \<Rightarrow> fval" where
  "float_of_int n = round32 (of_int n)"

text \<open>\<open>roundf\<close>: to the nearest integer, halfway cases away from zero.\<close>

definition round_half_away :: "rat \<Rightarrow> int" where
  "round_half_away r = (if 0 \<le> r then \<lfloor>r + 1 / 2\<rfloor> else \<lceil>r - 1 / 2\<rceil>)"

definition roundf :: "fval \<Rightarrow> fval" where
  "roundf x =
    (case x of
       Finite r \<Rightarrow>
         (let n = round_half_away r
          in if n = 0 \<and> r < 0 then NegZero else Finite (of_int n))
     | _ \<Rightarrow> x)"

text \<open>
  Conversion of a \<open>float\<close> to \<open>uint64_t\<close> truncates towards zero. The language defines
  the result only when the truncated value fits the type; \<open>None\<close> stands for a
  conversion it leaves undefined (NaN, an infinity, a value of \<open>2^64\<close> or more, or
  \<open>-1\<close> or less).
\<close>

definition trunc_rat :: "rat \<Rightarrow> int" where
  "trunc_rat r = (if 0 \<le> r then \<lfloor>r\<rfloor> else \<lceil>r\<rceil>)"

definition uint64_of_float :: "fval \<Rightarrow> uint64_t option" where
  "uint64_of_float x =
    (case x of
       Finite r \<Rightarrow> (if - 1 < r \<and> r < 2 ^ 64 then Some (word_of_int (trunc_rat r)) else None)
     | NegZero \<Rightarrow> Some 0
     | _ \<Rightarrow> None)"

section \<open>Constants of the translation unit\<close>

definition TIMER_DIVIDER :: int where "TIMER_DIVIDER = 80 * 80"
definition TICKS_PER_80US :: int where "TICKS_PER_80US = 1"
definition ONE_SECOND :: int where "ONE_SECOND = 12500"
definition DETAULT_SCALE_FACTOR :: int where "DETAULT_SCALE_FACTOR = 1"

text \<open>
  Modelled from the spec: the header \<open>uni_mouse_quadrature.h\<close> with the encoder
  indices is missing. A port is the ordered pair (horizontal, vertical) of axes, and
  the source names encoder 0 \<open>H\<close> and the other \<open>V\<close> when it creates the timer tasks.
  The maximum number of ports, \<open>UNI_MOUSE_QUADRATURE_PORT_MAX\<close>, is a parameter of the
  functions below.
\<close>

definition UNI_MOUSE_QUADRATURE_ENCODER_H :: nat where "UNI_MOUSE_QUADRATURE_ENCODER_H = 0"
definition UNI_MOUSE_QUADRATURE_ENCODER_V :: nat where "UNI_MOUSE_QUADRATURE_ENCODER_V = 1"
definition UNI_MOUSE_QUADRATURE_ENCODER_MAX :: nat where "UNI_MOUSE_QUADRATURE_ENCODER_MAX = 2"

section \<open>Axis state\<close>

datatype direction = PHASE_DIRECTION_NEG | PHASE_DIRECTION_POS

text \<open>
  The pin pair of one encoder (fields \<open>a\<close> and \<open>b\<close> of
  \<open>struct uni_mouse_quadrature_encoder_gpios\<close>) and the state of one encoder
  (\<open>struct quadrature_state\<close>; its field \<open>value\<close> is \<open>value'\<close> here).
\<close>

record uni_mouse_quadrature_encoder_gpios =
  gpio_a :: c_int
  gpio_b :: c_int

record quadrature_state =
  encoder :: c_int
  dir :: direction
  value' :: c_int
  phase :: c_int
  timer_group :: c_int
  timer_idx :: c_int
  gpios :: uni_mouse_quadrature_encoder_gpios

section \<open>Peripherals, log and persistent store\<close>

text \<open>
  The GPIO, timer and task functions belong to the platform. A call to one of them is
  recorded, with its arguments, at the end of the list \<open>hw\<close> of the program state.
  The count given to \<open>timer_set_counter_value\<close> is \<open>None\<close> when it comes from a
  conversion the language leaves undefined.
\<close>

datatype hw_call =
    Gpio_set_level c_int c_int
  | Timer_set_counter_value c_int c_int "uint64_t option"
  | Timer_start c_int c_int
  | Timer_pause c_int c_int
  | Timer_deinit c_int c_int
  | Task_create string c_int
  | Task_delete nat nat

text \<open>A log line: the level, the message with the function name filled in, the integer arguments.\<close>

datatype log_entry =
    Loge string "int list"
  | Logi string
  | Logd string "int list"

text \<open>
  The non-volatile store is a map from (namespace, key) to 32-bit values. Each of its
  functions returns an error code, \<open>ESP_OK\<close> on success. Whether the flash driver
  fails is not decided by this program: an \<open>nvs_env\<close> gives the code that each kind
  of call returns when it fails for a reason of its own (\<open>ESP_OK\<close> when it does not).
  A successful \<open>nvs_set_u32\<close> makes the value readable and a failed one writes nothing;
  \<open>nvs_commit\<close> reports whether the write reached the flash, and the store is taken
  to hold the written value also when it fails (the statements below that read a
  value back require the commit to have succeeded). \<open>nvs_get_u32\<close> of a key that is
  not stored fails and leaves its output untouched.
\<close>

type_synonym esp_err_t = "32 word"
type_synonym nvs_store = "string \<times> string \<Rightarrow> uint32_t option"

definition ESP_OK :: esp_err_t where "ESP_OK = 0"
definition ESP_ERR_NVS_NOT_FOUND :: esp_err_t where "ESP_ERR_NVS_NOT_FOUND = 0x1102"

record nvs_env =
  open_err :: esp_err_t
  set_err :: esp_err_t
  commit_err :: esp_err_t
  get_err :: esp_err_t

definition nvs_open :: "nvs_env \<Rightarrow> esp_err_t" where
  "nvs_open env = open_err env"

definition nvs_set_u32 :: "nvs_env \<Rightarrow> nvs_store \<Rightarrow> string \<times> string \<Rightarrow> uint32_t \<Rightarrow> esp_err_t \<times> nvs_store" where
  "nvs_set_u32 env st k v =
    (if set_err env = ESP_OK then (ESP_OK, st(k \<mapsto> v)) else (set_err env, st))"

definition nvs_commit :: "nvs_env \<Rightarrow> esp_err_t" where
  "nvs_commit env = commit_err env"

definition nvs_get_u32 :: "nvs_env \<Rightarrow> nvs_store \<Rightarrow> string \<times> string \<Rightarrow> esp_err_t \<times> uint32_t option" where
  "nvs_get_u32 env st k =
    (if get_err env \<noteq> ESP_OK then (get_err env, None)
     else case st k of None \<Rightarrow> (ESP_ERR_NVS_NOT_FOUND, None) | Some v \<Rightarrow> (ESP_OK, Some v))"

definition STORAGE_NAMESPACE :: string where "STORAGE_NAMESPACE = ''bp32''"
definition NVS_KEY_SCALE_FACTOR :: string where "NVS_KEY_SCALE_FACTOR = ''mouse.scale''"

section \<open>Program state\<close>

text \<open>
  The file-scope variables: the array \<open>s_quadratures[port][encoder]\<close>, the cache
  \<open>timer_started[port]\<close> and \<open>s_scale_factor\<close>; with them the store, the recorded
  platform calls and the log. An array is a function of its index: the public
  functions check a port index before they use it, and a timer task uses the indices
  it was created with.
\<close>

record world =
  s_quadratures :: "nat \<Rightarrow> nat \<Rightarrow> quadrature_state"
  timer_started :: "nat \<Rightarrow> bool"
  s_scale_factor :: float
  nvs :: nvs_store
  hw :: "hw_call list"
  logs :: "log_entry list"

definition set_quadrature :: "nat \<Rightarrow> nat \<Rightarrow> quadrature_state \<Rightarrow> world \<Rightarrow> world" where
  "set_quadrature i j q w = w\<lparr>s_quadratures := (s_quadratures w)(i := (s_quadratures w i)(j := q))\<rparr>"

section \<open>The stepper\<close>

text \<open>
  \<open>process_quadrature\<close> works on the encoder its pointer names; it returns the new
  encoder state, the platform calls it made and the lines it logged.
\<close>

definition process_quadrature :: "quadrature_state \<Rightarrow> quadrature_state \<times> hw_call list \<times> log_entry list" where
  "process_quadrature q =
    (if value' q \<le>s 0 then (q, [], [])
     else
       let q1 = q\<lparr>value' := value' q - 1\<rparr>;
           q2 = (if dir q1 = PHASE_DIRECTION_NEG then
                   (let q' = q1\<lparr>phase := phase q1 - 1\<rparr>
                    in if phase q' <s 0 then q'\<lparr>phase := 3\<rparr> else q')
                 else
                   (let q' = q1\<lparr>phase := phase q1 + 1\<rparr>
                    in if 3 <s phase q' then q'\<lparr>phase := 0\<rparr> else q'));
           (a, b, err) =
             (if phase q2 = 0 then (0, 0, [])
              else if phase q2 = 1 then (1, 0, [])
              else if phase q2 = 2 then (1, 1, [])
              else if phase q2 = 3 then (0, 1, [])
              else (0, 0, [Loge ''process_quadrature: invalid phase value: %d'' [sint (phase q2)]]));
           pin_a = gpio_a (gpios q2);
           pin_b = gpio_b (gpios q2)
       in (q2, [Gpio_set_level pin_a a, Gpio_set_level pin_b b],
           err @ [Logd ''value: %d, quadrature phase: %d, a=%d, b=%d (%d,%d)''
                    [sint (value' q2), sint (phase q2), sint a, sint b, sint pin_a, sint pin_b]]))"

text \<open>
  One turn of the loop of \<open>timer_task\<close>, after the timer's interrupt handler has
  notified the task: the task's argument holds the port index in its upper and the
  encoder index in its lower 16 bits.
\<close>

definition timer_task_turn :: "uint32_t \<Rightarrow> world \<Rightarrow> world" where
  "timer_task_turn arg w =
    (let port_idx = (ucast (drop_bit 16 arg) :: 16 word);
         encoder_idx = (ucast (arg AND 0xffff) :: 16 word);
         (q, calls, ls) = process_quadrature (s_quadratures w (unat port_idx) (unat encoder_idx))
     in (set_quadrature (unat port_idx) (unat encoder_idx) q w)
          \<lparr>hw := hw w @ calls, logs := logs w @ ls\<rparr>)"

section \<open>The rate converter\<close>

text \<open>
  The count that \<open>process_update\<close> gives to the timer (the computation of its local
  \<open>units\<close>), for the scale factor in force.
\<close>

definition process_update_units :: "float \<Rightarrow> int32_t \<Rightarrow> uint64_t option" where
  "process_update_units scale delta =
    (let abs_delta = (if delta <s 0 then - delta else delta)
     in if delta \<noteq> 0 then
          (let max_ticks = float_of_int (128 * TICKS_PER_80US);
               delta_f = float_of_int (sint abs_delta);
               units_f = fmul (fdiv max_ticks delta_f) (valof scale);
               units_f' = (if flt units_f (float_of_int TICKS_PER_80US)
                           then float_of_int TICKS_PER_80US else units_f)
           in uint64_of_float (roundf units_f'))
        else Some (word_of_int (ONE_SECOND * 60)))"

definition process_update :: "float \<Rightarrow> quadrature_state \<Rightarrow> int32_t \<Rightarrow> quadrature_state \<times> hw_call list" where
  "process_update scale q delta =
    (let abs_delta = (if delta <s 0 then - delta else delta);
         q' = (if delta \<noteq> 0 then
                 q\<lparr>value' := abs_delta,
                   dir := (if delta <s 0 then PHASE_DIRECTION_NEG else PHASE_DIRECTION_POS)\<rparr>
               else q);
         units = process_update_units scale delta
     in (q', [Timer_set_counter_value (timer_group q') (timer_idx q') units]))"

section \<open>The scale factor and its store\<close>

text \<open>
  The default \<open>DETAULT_SCALE_FACTOR\<close> is the integer 1; returned as a \<open>float\<close> it is
  \<open>1.0f\<close>, whose representation is \<open>0x3F800000\<close>.
\<close>

definition DETAULT_SCALE_FACTOR_float :: float where
  "DETAULT_SCALE_FACTOR_float = 0x3F800000"

text \<open>
  \<open>scale_alias\<close> points at the parameter \<open>scale\<close> as a \<open>uint32_t\<close>: what is stored is
  the representation of the \<open>float\<close>, and reading stores those 32 bits back into a
  \<open>float\<close>.
\<close>

definition uni_mouse_quadrature_set_scale_factor :: "nvs_env \<Rightarrow> float \<Rightarrow> world \<Rightarrow> world" where
  "uni_mouse_quadrature_set_scale_factor env scale w =
    (let scale_alias = scale;
         w1 = w\<lparr>s_scale_factor := scale\<rparr>;
         err = nvs_open env
     in if err \<noteq> ESP_OK then w1\<lparr>logs := logs w1 @ [Loge ''Could not open NVS storage'' []]\<rparr>
        else
          (let (err, st) = nvs_set_u32 env (nvs w1) (STORAGE_NAMESPACE, NVS_KEY_SCALE_FACTOR) scale_alias;
               w2 = w1\<lparr>nvs := st\<rparr>
           in if err \<noteq> ESP_OK then
                w2\<lparr>logs := logs w2 @ [Loge ''Could not save scale factor in NVS'' []]\<rparr>
              else
                (let err = nvs_commit env
                 in if err \<noteq> ESP_OK then
                      w2\<lparr>logs := logs w2 @ [Loge ''Could commit scale factor in NVS'' []]\<rparr>
                    else w2\<lparr>logs := logs w2 @ [Logi ''Ok'']\<rparr>)))"

definition uni_mouse_quadrature_get_scale_factor :: "nvs_env \<Rightarrow> world \<Rightarrow> float" where
  "uni_mouse_quadrature_get_scale_factor env w =
    (let err = nvs_open env
     in if err \<noteq> ESP_OK then DETAULT_SCALE_FACTOR_float
        else
          (let (err, out) = nvs_get_u32 env (nvs w) (STORAGE_NAMESPACE, NVS_KEY_SCALE_FACTOR)
           in if err \<noteq> ESP_OK then DETAULT_SCALE_FACTOR_float
              else (case out of Some v \<Rightarrow> v | None \<Rightarrow> DETAULT_SCALE_FACTOR_float)))"

section \<open>The port controller\<close>

text \<open>\<open>TIMER_GROUP_0\<close> and \<open>TIMER_0\<close> are the first enumerators of the timer driver.\<close>

definition TIMER_GROUP_0 :: c_int where "TIMER_GROUP_0 = 0"
definition TIMER_0 :: c_int where "TIMER_0 = 0"

definition zero_quadrature_state :: quadrature_state where
  "zero_quadrature_state =
    \<lparr>encoder = 0, dir = PHASE_DIRECTION_NEG, value' = 0, phase = 0, timer_group = 0,
     timer_idx = 0, gpios = \<lparr>gpio_a = 0, gpio_b = 0\<rparr>\<rparr>"

definition uni_mouse_quadrature_init :: "c_int \<Rightarrow> nvs_env \<Rightarrow> c_int \<Rightarrow> world \<Rightarrow> world" where
  "uni_mouse_quadrature_init PORT_MAX env cpu_id w =
    (let w1 = w\<lparr>s_quadratures := (\<lambda>i j. zero_quadrature_state)\<rparr>;
         w2 = fold (\<lambda>i wi.
                fold (\<lambda>j wj.
                    set_quadrature i j
                      ((s_quadratures wj i j)\<lparr>timer_group := TIMER_GROUP_0 + of_nat i,
                                              timer_idx := TIMER_0 + of_nat j\<rparr>) wj)
                  [0..<UNI_MOUSE_QUADRATURE_ENCODER_MAX]
                  (wi\<lparr>timer_started := (timer_started wi)(i := False)\<rparr>))
              [0..<nat (sint PORT_MAX)] w1;
         w3 = w2\<lparr>s_scale_factor := uni_mouse_quadrature_get_scale_factor env w2\<rparr>
     in w3\<lparr>hw := hw w3 @ [Task_create ''uni.init_timers'' cpu_id]\<rparr>)"

definition uni_mouse_quadrature_setup_port ::
  "c_int \<Rightarrow> c_int \<Rightarrow> uni_mouse_quadrature_encoder_gpios \<Rightarrow> uni_mouse_quadrature_encoder_gpios \<Rightarrow> world \<Rightarrow> world" where
  "uni_mouse_quadrature_setup_port PORT_MAX port_idx h v w =
    (if port_idx <s 0 \<or> PORT_MAX \<le>s port_idx then
       w\<lparr>logs := logs w @ [Loge ''uni_mouse_quadrature_setup_port: Invalid port idx=%d'' [sint port_idx]]\<rparr>
     else
       (let p = nat (sint port_idx);
            w1 = set_quadrature p UNI_MOUSE_QUADRATURE_ENCODER_H
                   ((s_quadratures w p UNI_MOUSE_QUADRATURE_ENCODER_H)\<lparr>gpios := h\<rparr>) w
        in set_quadrature p UNI_MOUSE_QUADRATURE_ENCODER_V
             ((s_quadratures w1 p UNI_MOUSE_QUADRATURE_ENCODER_V)\<lparr>gpios := v\<rparr>) w1))"

definition uni_mouse_quadrature_deinit :: "c_int \<Rightarrow> world \<Rightarrow> world" where
  "uni_mouse_quadrature_deinit PORT_MAX w =
    fold (\<lambda>i wi.
        fold (\<lambda>j wj.
            wj\<lparr>hw := hw wj @ [Timer_deinit (timer_group (s_quadratures wj i j))
                                   (timer_idx (s_quadratures wj i j)),
                                 Task_delete i j]\<rparr>)
          [0..<UNI_MOUSE_QUADRATURE_ENCODER_MAX] wi)
      [0..<nat (sint PORT_MAX)] w"

definition uni_mouse_quadrature_start :: "c_int \<Rightarrow> c_int \<Rightarrow> world \<Rightarrow> world" where
  "uni_mouse_quadrature_start PORT_MAX port_idx w =
    (if port_idx <s 0 \<or> PORT_MAX \<le>s port_idx then
       w\<lparr>logs := logs w @ [Loge ''uni_mouse_quadrature_start: Invalid port idx=%d'' [sint port_idx]]\<rparr>
     else if timer_started w (nat (sint port_idx)) then w
     else
       (let p = nat (sint port_idx);
            w1 = fold (\<lambda>j wj.
                   wj\<lparr>hw := hw wj @ [Timer_start (timer_group (s_quadratures wj p j))
                                          (timer_idx (s_quadratures wj p j))]\<rparr>)
                 [0..<UNI_MOUSE_QUADRATURE_ENCODER_MAX] w
        in w1\<lparr>timer_started := (timer_started w1)(p := True)\<rparr>))"

definition uni_mouse_quadrature_pause :: "c_int \<Rightarrow> c_int \<Rightarrow> world \<Rightarrow> world" where
  "uni_mouse_quadrature_pause PORT_MAX port_idx w =
    (if port_idx <s 0 \<or> PORT_MAX \<le>s port_idx then
       w\<lparr>logs := logs w @ [Loge ''uni_mouse_quadrature_pause: Invalid port idx=%d'' [sint port_idx]]\<rparr>
     else if \<not> timer_started w (nat (sint port_idx)) then w
     else
       (let p = nat (sint port_idx);
            w1 = fold (\<lambda>j wj.
                   wj\<lparr>hw := hw wj @ [Timer_pause (timer_group (s_quadratures wj p j))
                                          (timer_idx (s_quadratures wj p j))]\<rparr>)
                 [0..<UNI_MOUSE_QUADRATURE_ENCODER_MAX] w
        in w1\<lparr>timer_started := (timer_started w1)(p := False)\<rparr>))"

text \<open>\<open>process_update\<close> on the encoder \<open>s_quadratures[p][j]\<close>, with the scale factor in force.\<close>

definition process_update_at :: "nat \<Rightarrow> nat \<Rightarrow> int32_t \<Rightarrow> world \<Rightarrow> world" where
  "process_update_at p j delta w =
    (let (q, calls) = process_update (s_scale_factor w) (s_quadratures w p j) delta
     in (set_quadrature p j q w)\<lparr>hw := hw w @ calls\<rparr>)"

definition uni_mouse_quadrature_update :: "c_int \<Rightarrow> c_int \<Rightarrow> int32_t \<Rightarrow> int32_t \<Rightarrow> world \<Rightarrow> world" where
  "uni_mouse_quadrature_update PORT_MAX port_idx dx dy w =
    (if port_idx <s 0 \<or> PORT_MAX \<le>s port_idx then
       w\<lparr>logs := logs w @ [Loge ''uni_mouse_quadrature_update: Invalid port idx=%d'' [sint port_idx]]\<rparr>
     else
       (let p = nat (sint port_idx);
            w1 = process_update_at p UNI_MOUSE_QUADRATURE_ENCODER_H dx w
        in process_update_at p UNI_MOUSE_QUADRATURE_ENCODER_V (- dy) w1))"

section \<open>Runs of the program\<close>

text \<open>
  After \<open>uni_mouse_quadrature_init\<close> the program state changes by calls of the public
  functions and by turns of the timer tasks, in any order.
\<close>

datatype event =
    Setup_port c_int uni_mouse_quadrature_encoder_gpios uni_mouse_quadrature_encoder_gpios
  | Start c_int
  | Pause c_int
  | Update c_int int32_t int32_t
  | Set_scale_factor nvs_env float
  | Timer_fires uint32_t
  | Deinit

fun apply_event :: "c_int \<Rightarrow> event \<Rightarrow> world \<Rightarrow> world" where
  "apply_event PORT_MAX (Setup_port port_idx h v) w = uni_mouse_quadrature_setup_port PORT_MAX port_idx h v w"
| "apply_event PORT_MAX (Start port_idx) w = uni_mouse_quadrature_start PORT_MAX port_idx w"
| "apply_event PORT_MAX (Pause port_idx) w = uni_mouse_quadrature_pause PORT_MAX port_idx w"
| "apply_event PORT_MAX (Update port_idx dx dy) w = uni_mouse_quadrature_update PORT_MAX port_idx dx dy w"
| "apply_event PORT_MAX (Set_scale_factor env scale) w = uni_mouse_quadrature_set_scale_factor env scale w"
| "apply_event PORT_MAX (Timer_fires arg) w = timer_task_turn arg w"
| "apply_event PORT_MAX Deinit w = uni_mouse_quadrature_deinit PORT_MAX w"

definition run :: "c_int \<Rightarrow> event list \<Rightarrow> world \<Rightarrow> world" where
  "run PORT_MAX evs w = fold (apply_event PORT_MAX) evs w"

section \<open>Notions used in the statements\<close>

text \<open>
  The phase table as the specification gives it, for phases 0 to 3:
  \<open>0\<rightarrow>(0,0)\<close>, \<open>1\<rightarrow>(1,0)\<close>, \<open>2\<rightarrow>(1,1)\<close>, \<open>3\<rightarrow>(0,1)\<close>.
\<close>

definition quadrature_table :: "int \<Rightarrow> c_int \<times> c_int" where
  "quadrature_table p = [(0, 0), (1, 0), (1, 1), (0, 1)] ! nat p"

text \<open>The state of an encoder after one turn of its stepper.\<close>

definition stepper_turn :: "quadrature_state \<Rightarrow> quadrature_state" where
  "stepper_turn q = fst (process_quadrature q)"

text \<open>The phase that \<open>process_quadrature\<close> moves to when it advances.\<close>

definition next_phase :: "direction \<Rightarrow> c_int \<Rightarrow> c_int" where
  "next_phase d p =
    (if d = PHASE_DIRECTION_NEG then (if p - 1 <s 0 then 3 else p - 1)
     else (if 3 <s p + 1 then 0 else p + 1))"

text \<open>The smallest \<open>int32_t\<close>, the one value whose negation is not its absolute value.\<close>

definition INT32_MIN :: int32_t where
  "INT32_MIN = - (2 ^ 31)"

text \<open>An event whose deltas, if it is an update, both differ from \<open>INT32_MIN\<close>.\<close>

fun bounded_deltas :: "event \<Rightarrow> bool" where
  "bounded_deltas (Update port_idx dx dy) = (dx \<noteq> INT32_MIN \<and> dy \<noteq> INT32_MIN)"
| "bounded_deltas _ = True"

text \<open>
  The value of the local \<open>units_f\<close> of \<open>process_update\<close> before the clamp, for a delta
  that is not zero.
\<close>

definition update_units_f :: "float \<Rightarrow> int32_t \<Rightarrow> fval" where
  "update_units_f scale delta =
    (let abs_delta = (if delta <s 0 then - delta else delta);
         max_ticks = float_of_int (128 * TICKS_PER_80US);
         delta_f = float_of_int (sint abs_delta)
     in fmul (fdiv max_ticks delta_f) (valof scale))"

text \<open>
  The interval as the specification gives it: \<open>round(max_ticks / |d| * s)\<close>, clamped to a
  minimum of one tick, with \<open>max_ticks = 128\<close>; \<open>d\<close> is the delta and \<open>s\<close> the number that
  the scale factor stands for, and the arithmetic is exact.
\<close>

definition interval_spec :: "rat \<Rightarrow> int \<Rightarrow> int" where
  "interval_spec s d = max 1 (round_half_away (128 / of_int \<bar>d\<bar> * s))"

text \<open>
  The ticks that a float value gives when it is clamped to at least 1, rounded and
  converted to \<open>uint64_t\<close>.
\<close>

definition clamped_ticks :: "fval \<Rightarrow> uint64_t option" where
  "clamped_ticks x =
    (case x of
       Finite r \<Rightarrow> if r < 1 then Some 1
                   else if r + 1 / 2 < 2 ^ 64 then Some (word_of_int \<lfloor>r + 1 / 2\<rfloor>) else None
     | NegZero \<Rightarrow> Some 1
     | PInf \<Rightarrow> None
     | NInf \<Rightarrow> Some 1
     | NaN \<Rightarrow> None)"

section \<open>Example inputs\<close>

definition q_ex :: quadrature_state where
  "q_ex = \<lparr>encoder = 0, dir = PHASE_DIRECTION_NEG, value' = 5, phase = 0, timer_group = 0,
     timer_idx = 0, gpios = \<lparr>gpio_a = 26, gpio_b = 27\<rparr>\<rparr>"

definition env_ok :: nvs_env where
  "env_ok = \<lparr>open_err = 0, set_err = 0, commit_err = 0, get_err = 0\<rparr>"

definition env_fail :: nvs_env where
  "env_fail = \<lparr>open_err = 0x1101, set_err = 0, commit_err = 0, get_err = 0\<rparr>"

definition w_ex :: world where
  "w_ex = \<lparr>s_quadratures = (\<lambda>i j. q_ex), timer_started = (\<lambda>i. i = 1),
           s_scale_factor = 0x3F800000, nvs = Map.empty, hw = [], logs = []\<rparr>"

definition q_neg :: quadrature_state where
  "q_neg = q_ex\<lparr>value' := - 3\<rparr>"

definition w_neg :: world where
  "w_neg = w_ex\<lparr>s_quadratures := (\<lambda>i j. q_neg)\<rparr>"

definition evs_ex :: "event list" where
  "evs_ex = [Update 0 (- 2) 3, Start 0, Timer_fires 0, Timer_fires 0, Timer_fires 0, Timer_fires 1]"

section \<open>Machine arithmetic\<close>

lemma sint32_range: "- (2 ^ 31) \<le> sint (v :: 32 word) \<and> sint v < 2 ^ 31"
  using sint_ge [of v] sint_lt [of v] by simp

lemma sint_dec: "0 <s (v :: 32 word) \<Longrightarrow> sint (v - 1) = sint v - 1"
proof -
  assume "0 <s v"
  then have pos: "0 < sint v" by (simp add: word_sless_alt)
  have "sint (v - 1) = signed_take_bit 31 (sint v - 1)"
    by (simp add: sint_word_ariths)
  also have "\<dots> = sint v - 1"
    using pos sint32_range [of v] by (intro signed_take_bit_int_eq_self) auto
  finally show ?thesis .
qed

lemma phase_cases:
  assumes "0 \<le>s (p :: 32 word)" "p \<le>s 3"
  shows "p = 0 \<or> p = 1 \<or> p = 2 \<or> p = 3"
proof -
  from assms have "0 \<le> sint p" "sint p \<le> 3" by (simp_all add: word_sle_eq)
  then have "sint p = 0 \<or> sint p = 1 \<or> sint p = 2 \<or> sint p = 3" by arith
  moreover have "p = word_of_int (sint p)" by simp
  ultimately show ?thesis by (metis word_of_int_0 word_of_int_1 word_of_int_numeral)
qed

section \<open>The stepper advances through the quadrature sequence\<close>

lemma process_quadrature_state:
  assumes "0 <s value' q"
  shows "fst (process_quadrature q) = q\<lparr>value' := value' q - 1, phase := next_phase (dir q) (phase q)\<rparr>"
proof -
  from assms have "\<not> value' q \<le>s 0" by (simp add: word_sless_alt word_sle_eq)
  then show ?thesis
    by (simp add: process_quadrature_def next_phase_def Let_def split_def)
qed

lemma process_quadrature_pins:
  assumes "0 <s value' q"
  shows "fst (snd (process_quadrature q)) =
      (let p = next_phase (dir q) (phase q);
           ab = (if p = 0 then (0, 0) else if p = 1 then (1, 0) else if p = 2 then (1, 1)
                 else if p = 3 then (0, 1) else (0, 0))
       in [Gpio_set_level (gpio_a (gpios q)) (fst ab), Gpio_set_level (gpio_b (gpios q)) (snd ab)])"
proof -
  from assms have "\<not> value' q \<le>s 0" by (simp add: word_sless_alt word_sle_eq)
  then show ?thesis
    by (simp add: process_quadrature_def next_phase_def Let_def split_def)
qed

lemma process_quadrature_idle:
  assumes "value' q \<le>s 0"
  shows "process_quadrature q = (q, [], [])"
  using assms by (simp add: process_quadrature_def)

lemma next_phase_sint:
  assumes "0 \<le>s (p :: c_int)" "p \<le>s 3"
  shows "sint (next_phase d p) =
           (if d = PHASE_DIRECTION_POS then (sint p + 1) mod 4 else (sint p - 1) mod 4)"
  using phase_cases [OF assms] by (cases d; auto simp: next_phase_def word_sless_alt word_sle_eq)

lemma next_phase_range:
  assumes "0 \<le>s (p :: c_int)" "p \<le>s 3"
  shows "0 \<le>s next_phase d p \<and> next_phase d p \<le>s 3"
  using phase_cases [OF assms] by (cases d; auto simp: next_phase_def word_sless_alt word_sle_eq)

lemma next_phase_four:
  assumes "0 \<le>s (p :: c_int)" "p \<le>s 3"
  shows "next_phase d (next_phase d (next_phase d (next_phase d p))) = p"
  using phase_cases [OF assms] by (cases d; auto simp: next_phase_def word_sless_alt word_sle_eq)

lemma table_of_phase:
  assumes "0 \<le>s (p :: c_int)" "p \<le>s 3"
  shows "(if p = 0 then (0, 0) else if p = 1 then (1, 0) else if p = 2 then (1, 1)
          else if p = 3 then (0, 1) else (0, 0)) = quadrature_table (sint p)"
  using phase_cases [OF assms] by (auto simp: quadrature_table_def)

lemma stepper_turn_advance:
  assumes "0 <s value' q"
  shows "stepper_turn q = q\<lparr>value' := value' q - 1, phase := next_phase (dir q) (phase q)\<rparr>"
  using process_quadrature_state [OF assms] by (simp add: stepper_turn_def)

lemma stepper_turn_idle:
  assumes "value' q \<le>s 0"
  shows "stepper_turn q = q"
  using process_quadrature_idle [OF assms] by (simp add: stepper_turn_def)

lemma sless_dec:
  assumes "int k + 1 \<le> sint (v :: 32 word)"
  shows "0 <s v" and "int k \<le> sint (v - 1)"
proof -
  from assms show pos: "0 <s v" by (simp add: word_sless_alt)
  from sint_dec [OF pos] assms show "int k \<le> sint (v - 1)" by simp
qed

section \<open>Updates and turns of the stepper\<close>

lemma sint_eq_min: "sint (d :: 32 word) = - (2 ^ 31) \<Longrightarrow> d = INT32_MIN"
proof -
  assume "sint d = - (2 ^ 31)"
  then have "word_of_int (sint d) = (word_of_int (- (2 ^ 31)) :: 32 word)" by simp
  then show ?thesis by (simp add: INT32_MIN_def)
qed

lemma sint_neg:
  assumes "d \<noteq> INT32_MIN"
  shows "sint (- d) = - sint (d :: 32 word)"
proof -
  from assms sint_eq_min [of d] sint32_range [of d]
  have "- (2 ^ 31) < sint d" "sint d < 2 ^ 31" by fastforce+
  then have "signed_take_bit 31 (- sint d) = - sint d"
    by (intro signed_take_bit_int_eq_self) auto
  then show ?thesis by (simp add: sint_word_ariths)
qed

lemma sint_abs_delta:
  assumes "delta \<noteq> INT32_MIN"
  shows "sint (if delta <s 0 then - delta else delta) = \<bar>sint (delta :: 32 word)\<bar>"
  using sint_neg [OF assms] by (simp add: word_sless_alt)

lemma neg_min_iff: "- d = INT32_MIN \<longleftrightarrow> d = (INT32_MIN :: 32 word)"
proof
  assume "- d = INT32_MIN"
  then have "- (- d) = - INT32_MIN" by simp
  then show "d = INT32_MIN" by (simp add: INT32_MIN_def)
next
  assume "d = INT32_MIN"
  then show "- d = INT32_MIN" by (simp add: INT32_MIN_def)
qed

lemma process_update_state:
  "fst (process_update scale q delta) =
     (if delta \<noteq> 0 then
        q\<lparr>value' := (if delta <s 0 then - delta else delta),
          dir := (if delta <s 0 then PHASE_DIRECTION_NEG else PHASE_DIRECTION_POS)\<rparr>
      else q)"
  by (simp add: process_update_def Let_def)

lemma process_update_calls:
  "snd (process_update scale q delta) =
     [Timer_set_counter_value (timer_group q) (timer_idx q) (process_update_units scale delta)]"
  by (simp add: process_update_def Let_def)

lemma stepper_turns_count:
  "int k \<le> sint (value' q) \<Longrightarrow> sint (value' ((stepper_turn ^^ k) q)) = sint (value' q) - int k"
proof (induction k)
  case 0
  then show ?case by simp
next
  case (Suc k)
  then have ih: "sint (value' ((stepper_turn ^^ k) q)) = sint (value' q) - int k" by simp
  with Suc.prems have pos: "0 <s value' ((stepper_turn ^^ k) q)" by (simp add: word_sless_alt)
  show ?case
    using sint_dec [OF pos] ih by (simp add: stepper_turn_advance [OF pos])
qed

lemma stepper_turns_idle:
  "value' q \<le>s 0 \<Longrightarrow> (stepper_turn ^^ n) q = q"
  by (induction n) (simp_all add: stepper_turn_idle)

section \<open>The program state under the public functions\<close>

lemma set_quadrature_simps [simp]:
  "s_quadratures (set_quadrature i j q w) i' j' = (if i' = i \<and> j' = j then q else s_quadratures w i' j')"
  "timer_started (set_quadrature i j q w) = timer_started w"
  "s_scale_factor (set_quadrature i j q w) = s_scale_factor w"
  "nvs (set_quadrature i j q w) = nvs w"
  "hw (set_quadrature i j q w) = hw w"
  "logs (set_quadrature i j q w) = logs w"
  by (simp_all add: set_quadrature_def)

lemma process_update_at_simps [simp]:
  "s_quadratures (process_update_at p j delta w) i' j' =
     (if i' = p \<and> j' = j then fst (process_update (s_scale_factor w) (s_quadratures w p j) delta)
      else s_quadratures w i' j')"
  "timer_started (process_update_at p j delta w) = timer_started w"
  "s_scale_factor (process_update_at p j delta w) = s_scale_factor w"
  "nvs (process_update_at p j delta w) = nvs w"
  "hw (process_update_at p j delta w) =
     hw w @ [Timer_set_counter_value (timer_group (s_quadratures w p j)) (timer_idx (s_quadratures w p j))
               (process_update_units (s_scale_factor w) delta)]"
  "logs (process_update_at p j delta w) = logs w"
  by (simp_all add: process_update_at_def split_def process_update_calls)

lemma process_update_frame [simp]:
  "phase (fst (process_update scale q delta)) = phase q"
  "timer_group (fst (process_update scale q delta)) = timer_group q"
  "timer_idx (fst (process_update scale q delta)) = timer_idx q"
  "gpios (fst (process_update scale q delta)) = gpios q"
  "encoder (fst (process_update scale q delta)) = encoder q"
  by (simp_all add: process_update_state)

lemma update_valid:
  assumes "0 \<le>s port_idx" "port_idx <s PORT_MAX"
  shows "uni_mouse_quadrature_update PORT_MAX port_idx dx dy w =
           process_update_at (nat (sint port_idx)) UNI_MOUSE_QUADRATURE_ENCODER_V (- dy)
             (process_update_at (nat (sint port_idx)) UNI_MOUSE_QUADRATURE_ENCODER_H dx w)"
  using assms by (auto simp: uni_mouse_quadrature_update_def Let_def word_sless_alt word_sle_eq)

lemma update_invalid:
  assumes "port_idx <s 0 \<or> PORT_MAX \<le>s port_idx"
  shows "uni_mouse_quadrature_update PORT_MAX port_idx dx dy w =
           w\<lparr>logs := logs w @ [Loge ''uni_mouse_quadrature_update: Invalid port idx=%d'' [sint port_idx]]\<rparr>"
  using assms by (simp add: uni_mouse_quadrature_update_def)

lemma update_keeps_phase:
  "phase (s_quadratures (uni_mouse_quadrature_update PORT_MAX port_idx dx dy w) i j) =
   phase (s_quadratures w i j)"
  by (simp add: uni_mouse_quadrature_update_def Let_def)

lemma start_valid:
  assumes "0 \<le>s port_idx" "port_idx <s PORT_MAX"
  shows "uni_mouse_quadrature_start PORT_MAX port_idx w =
     (if timer_started w (nat (sint port_idx)) then w
      else w\<lparr>timer_started := (timer_started w)(nat (sint port_idx) := True),
             hw := hw w @ [Timer_start (timer_group (s_quadratures w (nat (sint port_idx)) 0))
                             (timer_idx (s_quadratures w (nat (sint port_idx)) 0)),
                           Timer_start (timer_group (s_quadratures w (nat (sint port_idx)) 1))
                             (timer_idx (s_quadratures w (nat (sint port_idx)) 1))]\<rparr>)"
proof -
  have u: "[0..<UNI_MOUSE_QUADRATURE_ENCODER_MAX] = [0, 1]"
    by (simp add: UNI_MOUSE_QUADRATURE_ENCODER_MAX_def upt_rec)
  from assms have v: "\<not> (port_idx <s 0 \<or> PORT_MAX \<le>s port_idx)"
    by (auto simp: word_sless_alt word_sle_eq)
  show ?thesis
    by (simp add: uni_mouse_quadrature_start_def v u Let_def del: upt.simps)
qed

lemma pause_valid:
  assumes "0 \<le>s port_idx" "port_idx <s PORT_MAX"
  shows "uni_mouse_quadrature_pause PORT_MAX port_idx w =
     (if \<not> timer_started w (nat (sint port_idx)) then w
      else w\<lparr>timer_started := (timer_started w)(nat (sint port_idx) := False),
             hw := hw w @ [Timer_pause (timer_group (s_quadratures w (nat (sint port_idx)) 0))
                             (timer_idx (s_quadratures w (nat (sint port_idx)) 0)),
                           Timer_pause (timer_group (s_quadratures w (nat (sint port_idx)) 1))
                             (timer_idx (s_quadratures w (nat (sint port_idx)) 1))]\<rparr>)"
proof -
  have u: "[0..<UNI_MOUSE_QUADRATURE_ENCODER_MAX] = [0, 1]"
    by (simp add: UNI_MOUSE_QUADRATURE_ENCODER_MAX_def upt_rec)
  from assms have v: "\<not> (port_idx <s 0 \<or> PORT_MAX \<le>s port_idx)"
    by (auto simp: word_sless_alt word_sle_eq)
  show ?thesis
    by (simp add: uni_mouse_quadrature_pause_def v u Let_def del: upt.simps)
qed

lemma fold_keeps:
  assumes "\<And>x w. P w \<Longrightarrow> P (f x w)" and "P w"
  shows "P (fold f xs w)"
  using assms(2) by (induction xs arbitrary: w) (simp_all add: assms(1))

lemma timer_task_turn_simps:
  "s_quadratures (timer_task_turn arg w) i j =
     (if i = unat (ucast (drop_bit 16 arg) :: 16 word) \<and> j = unat (ucast (arg AND 0xffff) :: 16 word)
      then stepper_turn (s_quadratures w i j) else s_quadratures w i j)"
  by (simp add: timer_task_turn_def Let_def split_def stepper_turn_def)

lemma timer_task_turn_idle:
  assumes "value' (s_quadratures w (unat (ucast (drop_bit 16 arg) :: 16 word))
                     (unat (ucast (arg AND 0xffff) :: 16 word))) \<le>s 0"
  shows "timer_task_turn arg w = w"
  using process_quadrature_idle [OF assms]
  by (simp add: timer_task_turn_def Let_def set_quadrature_def)

lemma stepper_turn_nonneg:
  assumes "0 \<le>s value' q"
  shows "0 \<le>s value' (stepper_turn q)"
proof (cases "0 <s value' q")
  case True
  from sint_dec [OF True] True show ?thesis
    by (simp add: stepper_turn_advance [OF True] word_sle_eq word_sless_alt)
next
  case False
  then have "value' q \<le>s 0" by (simp add: word_sle_eq word_sless_alt)
  then show ?thesis using assms by (simp add: stepper_turn_idle)
qed

lemma process_update_nonneg:
  assumes "0 \<le>s value' q" and "delta \<noteq> INT32_MIN"
  shows "0 \<le>s value' (fst (process_update scale q delta))"
proof (cases "delta = 0")
  case True
  with assms show ?thesis by (simp add: process_update_state)
next
  case False
  then have "value' (fst (process_update scale q delta)) = (if delta <s 0 then - delta else delta)"
    by (simp add: process_update_state)
  then show ?thesis using sint_abs_delta [OF assms(2)] by (simp add: word_sle_eq)
qed

lemma setup_port_value:
  "value' (s_quadratures (uni_mouse_quadrature_setup_port PORT_MAX port_idx h v w) i j) =
   value' (s_quadratures w i j)"
  by (simp add: uni_mouse_quadrature_setup_port_def Let_def)

lemma start_quadratures:
  "s_quadratures (uni_mouse_quadrature_start PORT_MAX port_idx w) = s_quadratures w"
proof -
  have "s_quadratures (fold (\<lambda>j wj.
           wj\<lparr>hw := hw wj @ [Timer_start (timer_group (s_quadratures wj p j))
                                  (timer_idx (s_quadratures wj p j))]\<rparr>) js w) = s_quadratures w" for p js
    by (induction js arbitrary: w) simp_all
  then show ?thesis by (simp add: uni_mouse_quadrature_start_def Let_def)
qed

lemma pause_quadratures:
  "s_quadratures (uni_mouse_quadrature_pause PORT_MAX port_idx w) = s_quadratures w"
proof -
  have "s_quadratures (fold (\<lambda>j wj.
           wj\<lparr>hw := hw wj @ [Timer_pause (timer_group (s_quadratures wj p j))
                                  (timer_idx (s_quadratures wj p j))]\<rparr>) js w) = s_quadratures w" for p js
    by (induction js arbitrary: w) simp_all
  then show ?thesis by (simp add: uni_mouse_quadrature_pause_def Let_def)
qed

lemma deinit_quadratures:
  "s_quadratures (uni_mouse_quadrature_deinit PORT_MAX w) = s_quadratures w"
proof -
  have inner: "s_quadratures (fold (\<lambda>j wj.
            wj\<lparr>hw := hw wj @ [Timer_deinit (timer_group (s_quadratures wj i j))
                                   (timer_idx (s_quadratures wj i j)),
                                 Task_delete i j]\<rparr>) js w) = s_quadratures w" for i js w
    by (induction js arbitrary: w) simp_all
  have "s_quadratures (fold (\<lambda>i wi.
        fold (\<lambda>j wj.
            wj\<lparr>hw := hw wj @ [Timer_deinit (timer_group (s_quadratures wj i j))
                                   (timer_idx (s_quadratures wj i j)),
                                 Task_delete i j]\<rparr>)
          [0..<UNI_MOUSE_QUADRATURE_ENCODER_MAX] wi) is w) = s_quadratures w" for "is"
    by (induction "is" arbitrary: w) (simp_all add: inner del: upt.simps)
  then show ?thesis by (simp add: uni_mouse_quadrature_deinit_def)
qed

lemma set_scale_factor_quadratures:
  "s_quadratures (uni_mouse_quadrature_set_scale_factor env scale w) = s_quadratures w"
  by (simp add: uni_mouse_quadrature_set_scale_factor_def Let_def split_def)

lemma init_values:
  "value' (s_quadratures (uni_mouse_quadrature_init PORT_MAX env cpu_id w) i j) = 0
   \<and> phase (s_quadratures (uni_mouse_quadrature_init PORT_MAX env cpu_id w) i j) = 0"
proof -
  let ?P = "\<lambda>w. \<forall>i j. value' (s_quadratures w i j) = 0 \<and> phase (s_quadratures w i j) = 0"
  let ?inner = "\<lambda>i wi. fold (\<lambda>j wj.
                    set_quadrature i j
                      ((s_quadratures wj i j)\<lparr>timer_group := TIMER_GROUP_0 + of_nat i,
                                              timer_idx := TIMER_0 + of_nat j\<rparr>) wj)
                  [0..<UNI_MOUSE_QUADRATURE_ENCODER_MAX]
                  (wi\<lparr>timer_started := (timer_started wi)(i := False)\<rparr>)"
  have inner: "?P (?inner i wi)" if "?P wi" for i wi
    by (rule fold_keeps) (use that in simp_all)
  have "?P (fold ?inner is w1)" if "?P w1" for "is" w1
    by (rule fold_keeps) (use that inner in blast)+
  moreover have "?P (w\<lparr>s_quadratures := (\<lambda>i j. zero_quadrature_state)\<rparr>)"
    by (simp add: zero_quadrature_state_def)
  ultimately show ?thesis
    by (simp add: uni_mouse_quadrature_init_def Let_def del: upt.simps)
qed

lemma apply_event_nonneg:
  assumes "\<And>i j. 0 \<le>s value' (s_quadratures w i j)" and "bounded_deltas ev"
  shows "0 \<le>s value' (s_quadratures (apply_event PORT_MAX ev w) i j)"
proof (cases ev)
  case (Setup_port port_idx h v)
  then show ?thesis using assms(1) by (simp add: setup_port_value)
next
  case (Start port_idx)
  then show ?thesis using assms(1) by (simp add: start_quadratures)
next
  case (Pause port_idx)
  then show ?thesis using assms(1) by (simp add: pause_quadratures)
next
  case (Update port_idx dx dy)
  with assms(2) have d: "dx \<noteq> INT32_MIN" "- dy \<noteq> INT32_MIN" by (simp_all add: neg_min_iff)
  show ?thesis
    using assms(1) process_update_nonneg [OF assms(1) d(1)] process_update_nonneg [OF assms(1) d(2)]
    by (simp add: Update uni_mouse_quadrature_update_def Let_def
        UNI_MOUSE_QUADRATURE_ENCODER_H_def UNI_MOUSE_QUADRATURE_ENCODER_V_def)
next
  case (Set_scale_factor env scale)
  then show ?thesis using assms(1) by (simp add: set_scale_factor_quadratures)
next
  case (Timer_fires arg)
  then show ?thesis using assms(1) stepper_turn_nonneg [OF assms(1)]
    by (simp add: timer_task_turn_simps)
next
  case Deinit
  then show ?thesis using assms(1) by (simp add: deinit_quadratures)
qed

lemma apply_event_phase:
  assumes "\<And>i j. 0 \<le>s phase (s_quadratures w i j) \<and> phase (s_quadratures w i j) \<le>s 3"
  shows "0 \<le>s phase (s_quadratures (apply_event PORT_MAX ev w) i j)
       \<and> phase (s_quadratures (apply_event PORT_MAX ev w) i j) \<le>s 3"
proof (cases ev)
  case (Setup_port port_idx h v)
  then show ?thesis using assms by (simp add: uni_mouse_quadrature_setup_port_def Let_def)
next
  case (Start port_idx)
  then show ?thesis using assms by (simp add: start_quadratures)
next
  case (Pause port_idx)
  then show ?thesis using assms by (simp add: pause_quadratures)
next
  case (Update port_idx dx dy)
  then show ?thesis using assms by (simp add: update_keeps_phase)
next
  case (Set_scale_factor env scale)
  then show ?thesis using assms by (simp add: set_scale_factor_quadratures)
next
  case (Timer_fires arg)
  have "0 \<le>s phase (stepper_turn q) \<and> phase (stepper_turn q) \<le>s 3"
    if "0 \<le>s phase q \<and> phase q \<le>s 3" for q
  proof (cases "0 <s value' q")
    case True
    then show ?thesis using that next_phase_range [of "phase q" "dir q"]
      by (simp add: stepper_turn_advance)
  next
    case False
    then have "value' q \<le>s 0" by (simp add: word_sle_eq word_sless_alt)
    then show ?thesis using that by (simp add: stepper_turn_idle)
  qed
  then show ?thesis using assms by (simp add: Timer_fires timer_task_turn_simps)
next
  case Deinit
  then show ?thesis using assms by (simp add: deinit_quadratures)
qed

lemma run_nonneg:
  assumes "\<And>i j. 0 \<le>s value' (s_quadratures w i j)" and "\<forall>ev \<in> set evs. bounded_deltas ev"
  shows "0 \<le>s value' (s_quadratures (run PORT_MAX evs w) i j)"
  using assms unfolding run_def
proof (induction evs arbitrary: w i j)
  case Nil
  then show ?case by simp
next
  case (Cons ev evs)
  have "0 \<le>s value' (s_quadratures (fold (apply_event PORT_MAX) evs (apply_event PORT_MAX ev w)) i j)"
  proof (rule Cons.IH)
    show "0 \<le>s value' (s_quadratures (apply_event PORT_MAX ev w) i' j')" for i' j'
      using Cons.prems by (intro apply_event_nonneg) simp_all
    show "\<forall>ev \<in> set evs. bounded_deltas ev" using Cons.prems by simp
  qed
  then show ?case by simp
qed

lemma run_phase:
  assumes "\<And>i j. 0 \<le>s phase (s_quadratures w i j) \<and> phase (s_quadratures w i j) \<le>s 3"
  shows "0 \<le>s phase (s_quadratures (run PORT_MAX evs w) i j)
       \<and> phase (s_quadratures (run PORT_MAX evs w) i j) \<le>s 3"
  using assms unfolding run_def
proof (induction evs arbitrary: w i j)
  case Nil
  then show ?case by simp
next
  case (Cons ev evs)
  have "0 \<le>s phase (s_quadratures (fold (apply_event PORT_MAX) evs (apply_event PORT_MAX ev w)) i j)
      \<and> phase (s_quadratures (fold (apply_event PORT_MAX) evs (apply_event PORT_MAX ev w)) i j) \<le>s 3"
    by (rule Cons.IH) (use Cons.prems in \<open>intro apply_event_phase\<close>)
  then show ?case by simp
qed

lemma phase_in_range_after_init:
  "0 \<le>s phase (s_quadratures (run PORT_MAX evs (uni_mouse_quadrature_init PORT_MAX env cpu_id w)) i j)
   \<and> phase (s_quadratures (run PORT_MAX evs (uni_mouse_quadrature_init PORT_MAX env cpu_id w)) i j) \<le>s 3"
  by (rule run_phase) (simp add: init_values word_sle_eq)

lemma set_scale_factor_simps:
  "s_scale_factor (uni_mouse_quadrature_set_scale_factor env scale w) = scale"
  "timer_started (uni_mouse_quadrature_set_scale_factor env scale w) = timer_started w"
  "hw (uni_mouse_quadrature_set_scale_factor env scale w) = hw w"
  "nvs (uni_mouse_quadrature_set_scale_factor env scale w) =
     (if open_err env = ESP_OK \<and> set_err env = ESP_OK
      then (nvs w)((STORAGE_NAMESPACE, NVS_KEY_SCALE_FACTOR) \<mapsto> scale) else nvs w)"
  by (simp_all add: uni_mouse_quadrature_set_scale_factor_def Let_def split_def nvs_open_def
      nvs_set_u32_def)

lemma get_scale_factor_nvs:
  "nvs w = nvs w' \<Longrightarrow>
   uni_mouse_quadrature_get_scale_factor env w = uni_mouse_quadrature_get_scale_factor env w'"
  by (simp add: uni_mouse_quadrature_get_scale_factor_def)

section \<open>Powers of two and binary rounding\<close>

lemma pow2_pos [simp]: "0 < pow2 n"
  by (simp add: pow2_def)

lemma pow2_nonneg_exp: "0 \<le> n \<Longrightarrow> pow2 n = 2 ^ nat n"
  by (simp add: pow2_def)

lemma pow2_eq_powi: "pow2 n = 2 powi n"
  by (simp add: pow2_def power_int_def inverse_eq_divide power_one_over)

lemma pow2_add: "pow2 (a + b) = pow2 a * pow2 b"
  by (simp add: pow2_eq_powi power_int_add)

lemma pow2_Suc: "pow2 (n + 1) = 2 * pow2 n"
  by (simp add: pow2_add) (simp add: pow2_def)

lemma pow2_mono: "a \<le> b \<Longrightarrow> pow2 a \<le> pow2 b"
  by (simp add: pow2_eq_powi power_int_increasing)

lemma pow2_strict_mono: "a < b \<Longrightarrow> pow2 a < pow2 b"
  by (simp add: pow2_eq_powi power_int_strict_increasing)

lemma ilog2_bounds:
  assumes "0 < x"
  shows "pow2 (ilog2 x) \<le> x \<and> x < pow2 (ilog2 x + 1)"
proof (cases "1 \<le> x")
  case True
  define n where "n = \<lfloor>x\<rfloor>"
  have n1: "1 \<le> n" using True by (simp add: n_def le_floor_iff)
  then have b1: "1 \<le> bitlen n" by (simp add: bitlen_alt_def)
  from bitlen_bounds [of n] n1
  have bb: "2 ^ nat (bitlen n - 1) \<le> n" "n < 2 ^ nat (bitlen n)" by simp_all
  have e: "ilog2 x = bitlen n - 1" using True by (simp add: ilog2_def n_def)
  have "pow2 (bitlen n - 1) = of_int (2 ^ nat (bitlen n - 1))"
    using b1 by (simp add: pow2_def)
  also have "\<dots> \<le> of_int n" using bb(1) by (simp only: of_int_le_iff)
  also have "\<dots> \<le> x" by (simp add: n_def)
  finally have lo: "pow2 (ilog2 x) \<le> x" by (simp add: e)
  have "n + 1 \<le> 2 ^ nat (bitlen n)" using bb(2) by simp
  then have "(of_int (n + 1) :: rat) \<le> of_int (2 ^ nat (bitlen n))" by (simp only: of_int_le_iff)
  moreover have "x < of_int (n + 1)" unfolding n_def using floor_correct [of x] by simp
  ultimately have "x < of_int (2 ^ nat (bitlen n))" by simp
  moreover have "pow2 (bitlen n - 1 + 1) = of_int (2 ^ nat (bitlen n))"
    using b1 by (simp add: pow2_def)
  ultimately have "x < pow2 (ilog2 x + 1)" by (simp add: e)
  with lo show ?thesis ..
next
  case False
  define y where "y = 1 / x"
  define n where "n = \<lceil>y\<rceil> - 1"
  have y1: "1 < y" using False assms by (simp add: y_def)
  then have n1: "1 \<le> n" by (simp add: n_def less_ceiling_iff)
  then have b1: "1 \<le> bitlen n" by (simp add: bitlen_alt_def)
  from bitlen_bounds [of n] n1
  have bb: "2 ^ nat (bitlen n - 1) \<le> n" "n < 2 ^ nat (bitlen n)" by simp_all
  have e: "ilog2 x = - bitlen n" using False by (simp add: ilog2_def n_def y_def)
  have yn: "of_int n < y" "y \<le> of_int (n + 1)"
    unfolding n_def using ceiling_correct [of y] by simp_all
  have "(of_int (n + 1) :: rat) \<le> of_int (2 ^ nat (bitlen n))"
    using bb(2) by (simp only: of_int_le_iff)
  with yn(2) have "y \<le> 2 ^ nat (bitlen n)" by simp
  then have "1 / 2 ^ nat (bitlen n) \<le> 1 / y"
    using y1 by (intro divide_left_mono) auto
  then have lo: "pow2 (ilog2 x) \<le> x"
    using b1 by (simp add: e pow2_def y_def)
  have "(of_int (2 ^ nat (bitlen n - 1)) :: rat) \<le> of_int n"
    using bb(1) by (simp only: of_int_le_iff)
  then have "(2 :: rat) ^ nat (bitlen n - 1) \<le> of_int n" by simp
  with yn(1) have "2 ^ nat (bitlen n - 1) < y" by linarith
  then have "1 / y < 1 / 2 ^ nat (bitlen n - 1)"
    using y1 by (intro divide_strict_left_mono) auto
  moreover have "pow2 (- bitlen n + 1) = 1 / 2 ^ nat (bitlen n - 1)"
    using b1 by (auto simp: pow2_def)
  ultimately have "x < pow2 (ilog2 x + 1)" by (simp add: e y_def)
  with lo show ?thesis ..
qed

lemma ilog2_unique:
  assumes "pow2 e \<le> x" and "x < pow2 (e + 1)"
  shows "ilog2 x = e"
proof -
  have "0 < x" using assms(1) pow2_pos [of e] by linarith
  from ilog2_bounds [OF this] have b: "pow2 (ilog2 x) \<le> x" "x < pow2 (ilog2 x + 1)" by simp_all
  have "\<not> ilog2 x < e"
  proof
    assume "ilog2 x < e"
    then have "pow2 (ilog2 x + 1) \<le> pow2 e" by (intro pow2_mono) simp
    with assms(1) b(2) show False by linarith
  qed
  moreover have "\<not> e < ilog2 x"
  proof
    assume "e < ilog2 x"
    then have "pow2 (e + 1) \<le> pow2 (ilog2 x)" by (intro pow2_mono) simp
    with assms(2) b(1) show False by linarith
  qed
  ultimately show ?thesis by linarith
qed

lemma ilog2_double:
  assumes "0 < x"
  shows "ilog2 (2 * x) = ilog2 x + 1"
proof (rule ilog2_unique)
  note b = ilog2_bounds [OF assms]
  have s1: "pow2 (ilog2 x + 1) = 2 * pow2 (ilog2 x)" by (rule pow2_Suc)
  have s2: "pow2 (ilog2 x + 1 + 1) = 2 * pow2 (ilog2 x + 1)" by (rule pow2_Suc)
  from b show "pow2 (ilog2 x + 1) \<le> 2 * x" unfolding s1 by linarith
  from b show "2 * x < pow2 (ilog2 x + 1 + 1)" unfolding s2 by linarith
qed

lemma ilog2_mono:
  assumes "0 < x" and "x \<le> y"
  shows "ilog2 x \<le> ilog2 y"
proof (rule ccontr)
  assume "\<not> ilog2 x \<le> ilog2 y"
  then have "pow2 (ilog2 y + 1) \<le> pow2 (ilog2 x)" by (intro pow2_mono) simp
  moreover have "0 < y" using assms by linarith
  ultimately show False
    using ilog2_bounds [OF assms(1)] ilog2_bounds [OF \<open>0 < y\<close>] assms(2) by linarith
qed

lemma round_half_even_cases:
  "round_half_even x = \<lfloor>x\<rfloor> \<or> (round_half_even x = \<lfloor>x\<rfloor> + 1 \<and> of_int \<lfloor>x\<rfloor> < x)"
  by (auto simp: round_half_even_def Let_def)

lemma round_half_even_nonneg: "0 \<le> x \<Longrightarrow> 0 \<le> round_half_even x"
  using round_half_even_cases [of x] by (auto simp: zero_le_floor)

lemma round_half_even_le:
  assumes "x \<le> of_int n"
  shows "round_half_even x \<le> n"
proof -
  have f: "\<lfloor>x\<rfloor> \<le> n" using assms by (simp add: floor_le_iff)
  from round_half_even_cases [of x] show ?thesis
  proof
    assume "round_half_even x = \<lfloor>x\<rfloor>"
    with f show ?thesis by simp
  next
    assume a: "round_half_even x = \<lfloor>x\<rfloor> + 1 \<and> of_int \<lfloor>x\<rfloor> < x"
    then have "(of_int \<lfloor>x\<rfloor> :: rat) < of_int n" using assms by linarith
    then have "\<lfloor>x\<rfloor> < n" by (simp only: of_int_less_iff)
    with a show ?thesis by simp
  qed
qed

lemma pow2_numerals:
  "pow2 23 = 2 ^ 23" "pow2 0 = 1" "pow2 (- 126) < 1" "pow2 (- 126) < pow2 128"
  "pow2 23 * pow2 (- 149) = pow2 (- 126)"
proof -
  show "pow2 23 = 2 ^ 23" "pow2 0 = 1" by (simp_all add: pow2_def)
  have "pow2 (- 126) < pow2 0" by (rule pow2_strict_mono) simp
  then show "pow2 (- 126) < 1" by (simp add: pow2_def)
  show "pow2 (- 126) < pow2 128" by (rule pow2_strict_mono) simp
  have "pow2 (23 + (- 149)) = pow2 23 * pow2 (- 149)" by (rule pow2_add)
  then show "pow2 23 * pow2 (- 149) = pow2 (- 126)" by simp
qed

lemma pow2_nonneg [simp]: "0 \<le> pow2 n"
  using pow2_pos [of n] by (rule less_imp_le)

lemma round32_pos:
  assumes "0 < r"
  shows "round32 r =
    (let ulp = pow2 (max (ilog2 r) (- 126) - 23);
         v = of_int (round_half_even (r / ulp)) * ulp
     in if pow2 128 \<le> v then PInf else Finite v)"
  using assms by (auto simp: round32_def Let_def)

lemma round32_neg_flt:
  assumes "r < 0"
  shows "flt (round32 r) (Finite 1)"
proof -
  define ulp where "ulp = pow2 (max (ilog2 \<bar>r\<bar>) (- 126) - 23)"
  define v where "v = (of_int (round_half_even (\<bar>r\<bar> / ulp)) * ulp :: rat)"
  have "0 < ulp" by (simp add: ulp_def)
  then have "0 \<le> \<bar>r\<bar> / ulp" by simp
  then have "0 \<le> round_half_even (\<bar>r\<bar> / ulp)" by (rule round_half_even_nonneg)
  then have "0 \<le> v" using \<open>0 < ulp\<close> by (simp add: v_def)
  have "round32 r = (if pow2 128 \<le> v then NInf else if v = 0 then NegZero else Finite (- v))"
    using assms by (simp add: round32_def Let_def ulp_def v_def)
  then show ?thesis using \<open>0 \<le> v\<close> by (simp add: flt_def rat_of_fval_def)
qed

lemma ilog2_ge:
  assumes "pow2 n \<le> r"
  shows "n \<le> ilog2 r"
proof (rule ccontr)
  assume "\<not> n \<le> ilog2 r"
  then have "pow2 (ilog2 r + 1) \<le> pow2 n" by (intro pow2_mono) simp
  moreover have "0 < r" using assms pow2_pos [of n] by linarith
  ultimately show False using ilog2_bounds [of r] assms by linarith
qed

lemma ilog2_less:
  assumes "0 < r" and "r < pow2 n"
  shows "ilog2 r < n"
proof (rule ccontr)
  assume "\<not> ilog2 r < n"
  then have "pow2 n \<le> pow2 (ilog2 r)" by (intro pow2_mono) simp
  then show False using ilog2_bounds [OF assms(1)] assms(2) by linarith
qed

lemma round32_small_flt:
  assumes "0 < r" and "r < pow2 (- 126)"
  shows "flt (round32 r) (Finite 1)"
proof -
  from ilog2_less [OF assms] have e: "max (ilog2 r) (- 126) = - 126" by simp
  define v where "v = (of_int (round_half_even (r / pow2 (- 149))) * pow2 (- 149) :: rat)"
  have "r / pow2 (- 149) \<le> pow2 23"
  proof -
    have "r \<le> pow2 23 * pow2 (- 149)" using assms(2) by (simp add: pow2_numerals(5))
    then show ?thesis by (simp add: pos_divide_le_eq)
  qed
  then have "r / pow2 (- 149) \<le> of_int (2 ^ 23)" by (simp add: pow2_numerals(1))
  then have "round_half_even (r / pow2 (- 149)) \<le> 2 ^ 23" by (rule round_half_even_le)
  then have "(of_int (round_half_even (r / pow2 (- 149))) :: rat) \<le> of_int (2 ^ 23)"
    by (simp only: of_int_le_iff)
  then have "v \<le> pow2 23 * pow2 (- 149)"
    unfolding v_def pow2_numerals(1) by (intro mult_right_mono) simp_all
  then have v: "v \<le> pow2 (- 126)" by (simp only: pow2_numerals(5))
  have "round32 r = (if pow2 128 \<le> v then PInf else Finite v)"
    using round32_pos [OF assms(1)] by (simp add: Let_def e v_def)
  then show ?thesis using v pow2_numerals(3,4) by (simp add: flt_def rat_of_fval_def)
qed

lemma round32_double:
  assumes "pow2 (- 126) \<le> r" and "round32 (2 * r) = Finite y"
  shows "round32 r = Finite (y / 2)"
proof -
  have pos: "0 < r" using assms(1) pow2_pos [of "- 126"] by linarith
  from ilog2_ge [OF assms(1)] have e: "max (ilog2 r) (- 126) = ilog2 r" by simp
  have e2: "max (ilog2 (2 * r)) (- 126) = ilog2 r + 1"
    using ilog2_ge [OF assms(1)] by (simp add: ilog2_double [OF pos])
  define ulp where "ulp = pow2 (ilog2 r - 23)"
  define v where "v = (of_int (round_half_even (r / ulp)) * ulp :: rat)"
  have u2: "pow2 (max (ilog2 (2 * r)) (- 126) - 23) = 2 * ulp"
  proof -
    have "max (ilog2 (2 * r)) (- 126) - 23 = ilog2 r - 23 + 1" using e2 by simp
    then show ?thesis by (simp only: pow2_Suc ulp_def)
  qed
  have "0 < ulp" by (simp add: ulp_def)
  then have d: "2 * r / (2 * ulp) = r / ulp" by simp
  have m: "of_int (round_half_even (r / ulp)) * (2 * ulp) = 2 * v" by (simp add: v_def)
  have "0 < 2 * r" using pos by simp
  from round32_pos [OF this]
  have r2: "round32 (2 * r) = (if pow2 128 \<le> 2 * v then PInf else Finite (2 * v))"
    by (simp only: Let_def u2 d m)
  with assms(2) have y: "y = 2 * v" "\<not> pow2 128 \<le> 2 * v" by (auto split: if_splits)
  have "0 \<le> round_half_even (r / ulp)"
    using pos \<open>0 < ulp\<close> by (intro round_half_even_nonneg) simp
  then have "0 \<le> v" using \<open>0 < ulp\<close> by (simp add: v_def)
  with y(2) have "\<not> pow2 128 \<le> v" by linarith
  moreover have "round32 r = (if pow2 128 \<le> v then PInf else Finite v)"
    using round32_pos [OF pos] by (simp add: Let_def e ulp_def v_def)
  ultimately show ?thesis using y(1) by simp
qed

section \<open>Clamping, rounding and conversion\<close>

lemma float_of_int_1: "float_of_int 1 = Finite 1"
  by code_simp

lemma uint64_of_float_int:
  "0 \<le> n \<Longrightarrow> uint64_of_float (Finite (of_int n)) = (if n < 2 ^ 64 then Some (word_of_int n) else None)"
proof -
  assume n: "0 \<le> n"
  have "(of_int n :: rat) < of_int (2 ^ 64) \<longleftrightarrow> n < 2 ^ 64" by (simp only: of_int_less_iff)
  then have "(of_int n :: rat) < 2 ^ 64 \<longleftrightarrow> n < 2 ^ 64" by simp
  moreover have "(- 1 :: rat) < of_int n" using n by simp
  ultimately show ?thesis using n by (simp add: uint64_of_float_def trunc_rat_def)
qed

lemma floor_half_ge1: "1 \<le> r \<Longrightarrow> 1 \<le> \<lfloor>r + 1 / 2 :: rat\<rfloor>"
  by (simp add: le_floor_iff)

lemma floor_half_less: "\<lfloor>r + 1 / 2 :: rat\<rfloor> < 2 ^ 64 \<longleftrightarrow> r + 1 / 2 < 2 ^ 64"
proof -
  have "\<lfloor>r + 1 / 2\<rfloor> < 2 ^ 64 \<longleftrightarrow> r + 1 / 2 < of_int (2 ^ 64)" by (rule floor_less_iff)
  then show ?thesis by simp
qed

lemma clamp_then_round:
  "uint64_of_float (roundf (if flt x (Finite 1) then Finite 1 else x)) = clamped_ticks x"
proof (cases x)
  case (Finite r)
  show ?thesis
  proof (cases "r < 1")
    case True
    have "uint64_of_float (roundf (Finite 1)) = Some 1" by code_simp
    with True show ?thesis by (simp add: Finite flt_def rat_of_fval_def clamped_ticks_def)
  next
    case False
    then have r: "1 \<le> r" by simp
    then have rf: "roundf (Finite r) = Finite (of_int \<lfloor>r + 1 / 2\<rfloor>)"
      using floor_half_ge1 [OF r] by (simp add: roundf_def round_half_away_def Let_def)
    have "0 \<le> \<lfloor>r + 1 / 2\<rfloor>" using floor_half_ge1 [OF r] by simp
    from uint64_of_float_int [OF this] False show ?thesis
      by (simp add: Finite flt_def rat_of_fval_def clamped_ticks_def rf floor_half_less)
  qed
next
  case NegZero
  have "uint64_of_float (roundf (Finite 1)) = Some 1" by code_simp
  then show ?thesis by (simp add: NegZero flt_def rat_of_fval_def clamped_ticks_def)
next
  case PInf
  then show ?thesis by (simp add: flt_def clamped_ticks_def roundf_def uint64_of_float_def)
next
  case NInf
  have "uint64_of_float (roundf (Finite 1)) = Some 1" by code_simp
  then show ?thesis by (simp add: NInf flt_def clamped_ticks_def)
next
  case NaN
  then show ?thesis by (simp add: flt_def clamped_ticks_def roundf_def uint64_of_float_def)
qed

lemma process_update_units_nonzero:
  "delta \<noteq> 0 \<Longrightarrow> process_update_units scale delta = clamped_ticks (update_units_f scale delta)"
proof -
  assume "delta \<noteq> 0"
  then have "process_update_units scale delta =
      uint64_of_float (roundf (if flt (update_units_f scale delta) (Finite 1) then Finite 1
                               else update_units_f scale delta))"
    by (simp add: process_update_units_def update_units_f_def Let_def TICKS_PER_80US_def
        float_of_int_1 split del: if_split cong: if_cong)
  then show ?thesis by (simp only: clamp_then_round)
qed

lemma clamped_ticks_ge1:
  assumes "clamped_ticks x = Some u"
  shows "1 \<le> u"
proof -
  have w: "1 \<le> (word_of_int n :: 64 word)" if "1 \<le> n" "n < 2 ^ 64" for n
  proof -
    have "uint (word_of_int n :: 64 word) = n"
      using that by (simp add: uint_word_of_int take_bit_int_eq_self)
    with that(1) show ?thesis by (simp add: word_le_def)
  qed
  show ?thesis
  proof (cases x)
    case (Finite r)
    show ?thesis
    proof (cases "r < 1")
      case True
      with assms Finite show ?thesis by (simp add: clamped_ticks_def)
    next
      case False
      with assms Finite have "r + 1 / 2 < 2 ^ 64" "u = word_of_int \<lfloor>r + 1 / 2\<rfloor>"
        by (auto simp: clamped_ticks_def split: if_splits)
      moreover from False have "1 \<le> \<lfloor>r + 1 / 2\<rfloor>" by (intro floor_half_ge1) simp
      ultimately show ?thesis using w floor_half_less [of r] by simp
    qed
  qed (use assms in \<open>simp_all add: clamped_ticks_def\<close>)
qed

lemma update_units_f_abs:
  assumes "delta \<noteq> INT32_MIN"
  shows "update_units_f scale delta =
     fmul (fdiv (float_of_int 128) (float_of_int \<bar>sint delta\<bar>)) (valof scale)"
  using sint_abs_delta [OF assms]
  by (simp add: update_units_f_def Let_def TICKS_PER_80US_def split del: if_split)

lemma round_half_away_max:
  "max 1 (round_half_away r) = (if r < 1 then 1 else \<lfloor>r + 1 / 2\<rfloor>)"
proof (cases "r < 1")
  case True
  have "round_half_away r \<le> 1"
  proof (cases "0 \<le> r")
    case True
    have "r + 1 / 2 < of_int 2" using \<open>r < 1\<close> by simp
    then have "\<lfloor>r + 1 / 2\<rfloor> < 2" by (simp only: floor_less_iff)
    with True show ?thesis by (simp add: round_half_away_def)
  next
    case False
    then have "r - 1 / 2 \<le> of_int 0" by simp
    then have "\<lceil>r - 1 / 2\<rceil> \<le> 0" by (simp only: ceiling_le_iff)
    with False show ?thesis by (simp add: round_half_away_def)
  qed
  with True show ?thesis by simp
next
  case False
  then have "1 \<le> \<lfloor>r + 1 / 2\<rfloor>" by (intro floor_half_ge1) simp
  with False show ?thesis by (simp add: round_half_away_def)
qed

lemma clamped_ticks_finite:
  assumes "r + 1 / 2 < 2 ^ 64"
  shows "clamped_ticks (Finite r) = Some (word_of_int (max 1 (round_half_away r)))"
  using assms by (simp add: clamped_ticks_def round_half_away_max)

lemma fmul_finite:
  "fmul (Finite c) (Finite a) =
     (if c = 0 \<or> a = 0 then signed_zero ((c < 0) \<noteq> (a < 0)) else round32 (c * a))"
  by (simp add: fmul_def is_inf_def is_zero_def is_neg_def rat_of_fval_def)

lemma flt_signed_zero: "flt (signed_zero b) (Finite 1)"
  by (simp add: signed_zero_def flt_def rat_of_fval_def)

lemma fmul_doubled:
  assumes "\<not> flt (fmul q (Finite a)) (Finite 1)"
    and "clamped_ticks (fmul q (Finite (2 * a))) = Some u2"
  shows "\<exists>v. 1 \<le> v \<and> fmul q (Finite a) = Finite v \<and> fmul q (Finite (2 * a)) = Finite (2 * v)"
proof (cases q)
  case (Finite c)
  from assms(1) flt_signed_zero have nz: "c \<noteq> 0" "a \<noteq> 0"
    by (auto simp: Finite fmul_finite)
  then have x: "fmul q (Finite a) = round32 (c * a)"
    and x2: "fmul q (Finite (2 * a)) = round32 (2 * (c * a))"
    by (simp_all add: Finite fmul_finite algebra_simps)
  have "\<not> c * a < 0" using assms(1) round32_neg_flt [of "c * a"] by (auto simp: x)
  moreover have "c * a \<noteq> 0" using nz by simp
  ultimately have pos: "0 < c * a" by linarith
  have "\<not> c * a < pow2 (- 126)"
    using assms(1) round32_small_flt [OF pos] by (auto simp: x)
  then have big: "pow2 (- 126) \<le> c * a" by simp
  have "0 < 2 * (c * a)" using pos by simp
  from round32_pos [OF this] assms(2) obtain y where y: "round32 (2 * (c * a)) = Finite y"
    by (auto simp: x2 Let_def clamped_ticks_def split: if_splits)
  from round32_double [OF big y] have v: "round32 (c * a) = Finite (y / 2)" .
  with assms(1) have "1 \<le> y / 2" by (simp add: x flt_def rat_of_fval_def)
  with v y show ?thesis by (intro exI [of _ "y / 2"]) (simp add: x x2)
next
  case NegZero
  with assms(1) flt_signed_zero show ?thesis
    by (auto simp: fmul_def is_inf_def is_zero_def)
next
  case PInf
  with assms show ?thesis
    by (auto simp: fmul_def is_inf_def is_zero_def is_neg_def signed_inf_def flt_def
        clamped_ticks_def split: if_splits)
next
  case NInf
  with assms show ?thesis
    by (auto simp: fmul_def is_inf_def is_zero_def is_neg_def signed_inf_def flt_def
        clamped_ticks_def split: if_splits)
next
  case NaN
  with assms show ?thesis by (simp add: fmul_def clamped_ticks_def)
qed

lemma uint_word64_of_int:
  "0 \<le> n \<Longrightarrow> n < 2 ^ 64 \<Longrightarrow> uint (word_of_int n :: 64 word) = n"
  by (simp add: uint_word_of_int take_bit_int_eq_self)

lemma floor_doubled:
  fixes v :: rat
  shows "\<bar>\<lfloor>2 * v + 1 / 2\<rfloor> - 2 * \<lfloor>v + 1 / 2\<rfloor>\<bar> \<le> 1"
    and "v \<in> \<int> \<Longrightarrow> \<lfloor>2 * v + 1 / 2\<rfloor> = 2 * \<lfloor>v + 1 / 2\<rfloor>"
proof -
  define n where "n = \<lfloor>v + 1 / 2\<rfloor>"
  have n: "of_int n \<le> v + 1 / 2" "v + 1 / 2 < of_int n + 1"
    using floor_correct [of "v + 1 / 2"] by (simp_all add: n_def)
  have "of_int (2 * n - 1) \<le> 2 * v + 1 / 2" using n(1) by simp
  then have lo: "2 * n - 1 \<le> \<lfloor>2 * v + 1 / 2\<rfloor>" by (simp only: le_floor_iff)
  have "2 * v + 1 / 2 < of_int (2 * n + 2)" using n(2) by simp
  then have hi: "\<lfloor>2 * v + 1 / 2\<rfloor> < 2 * n + 2" by (simp only: floor_less_iff)
  from lo hi show "\<bar>\<lfloor>2 * v + 1 / 2\<rfloor> - 2 * \<lfloor>v + 1 / 2\<rfloor>\<bar> \<le> 1" by (simp add: n_def)
  assume "v \<in> \<int>"
  then obtain k where k: "v = of_int k" by (auto elim: Ints_cases)
  have "\<lfloor>of_int k + 1 / 2 :: rat\<rfloor> = k" by (simp add: floor_eq_iff)
  moreover have "\<lfloor>2 * of_int k + 1 / 2 :: rat\<rfloor> = 2 * k"
  proof -
    have "(2 * of_int k + 1 / 2 :: rat) = of_int (2 * k) + 1 / 2" by simp
    then show ?thesis by (simp only: floor_eq_iff) simp
  qed
  ultimately show "\<lfloor>2 * v + 1 / 2\<rfloor> = 2 * \<lfloor>v + 1 / 2\<rfloor>" by (simp add: k)
qed

lemma default_scale_factor_is_one:
  "valof DETAULT_SCALE_FACTOR_float = float_of_int DETAULT_SCALE_FACTOR"
  by code_simp

section \<open>The float product against the exact formula\<close>

lemma round_half_even_error: "\<bar>of_int (round_half_even x) - x\<bar> \<le> 1 / 2"
proof -
  define d where "d = x - of_int \<lfloor>x\<rfloor>"
  have d: "0 \<le> d" "d < 1" using floor_correct [of x] by (simp_all add: d_def)
  have x: "x = of_int \<lfloor>x\<rfloor> + d" by (simp add: d_def)
  consider "d < 1 / 2" | "1 / 2 < d" | "d = 1 / 2" by linarith
  then show ?thesis
  proof cases
    case 1
    then have "round_half_even x = \<lfloor>x\<rfloor>" by (simp add: round_half_even_def Let_def d_def)
    with 1 d show ?thesis by (simp add: d_def)
  next
    case 2
    then have "round_half_even x = \<lfloor>x\<rfloor> + 1" by (simp add: round_half_even_def Let_def d_def)
    with 2 d show ?thesis by (simp add: d_def)
  next
    case 3
    from round_half_even_cases [of x] have "round_half_even x = \<lfloor>x\<rfloor> \<or> round_half_even x = \<lfloor>x\<rfloor> + 1"
      by blast
    with 3 show ?thesis by (auto simp: d_def)
  qed
qed

lemma round_half_even_int: "round_half_even (of_int k) = k"
  by (simp add: round_half_even_def Let_def)

lemma pow2_minus: "pow2 (- n) = 1 / pow2 n"
  by (simp add: pow2_eq_powi power_int_minus inverse_eq_divide)

text \<open>The error of rounding a positive number below \<open>2^127\<close>: half a unit in the last place.\<close>

lemma round32_error:
  assumes "0 < r" and "r < pow2 127"
  shows "\<exists>v. round32 r = Finite v \<and> 0 \<le> v \<and> \<bar>v - r\<bar> \<le> r * pow2 (- 24) + pow2 (- 150)
           \<and> (pow2 (- 126) \<le> r \<longrightarrow> \<bar>v - r\<bar> \<le> r * pow2 (- 24))"
proof -
  define e where "e = max (ilog2 r) (- 126)"
  define ulp where "ulp = pow2 (e - 23)"
  define v where "v = (of_int (round_half_even (r / ulp)) * ulp :: rat)"
  have up: "0 < ulp" by (simp add: ulp_def)
  have "\<bar>of_int (round_half_even (r / ulp)) - r / ulp\<bar> * ulp \<le> 1 / 2 * ulp"
    using round_half_even_error [of "r / ulp"] up by (intro mult_right_mono) simp_all
  moreover have "\<bar>of_int (round_half_even (r / ulp)) - r / ulp\<bar> * ulp = \<bar>v - r\<bar>"
  proof -
    have "v - r = (of_int (round_half_even (r / ulp)) - r / ulp) * ulp"
      using up by (simp add: v_def algebra_simps)
    then show ?thesis using up by (simp add: abs_mult)
  qed
  ultimately have err: "\<bar>v - r\<bar> \<le> ulp / 2" by simp
  have half: "ulp / 2 = pow2 (e - 24)"
  proof -
    have "pow2 (e - 24 + 1) = 2 * pow2 (e - 24)" by (rule pow2_Suc)
    then show ?thesis by (simp add: ulp_def)
  qed
  have normal: "ulp / 2 \<le> r * pow2 (- 24)" if "pow2 (- 126) \<le> r"
  proof -
    from ilog2_ge [OF that] have "e = ilog2 r" by (simp add: e_def)
    then have "pow2 (e - 24) = pow2 (ilog2 r) * pow2 (- 24)"
      using pow2_add [of "ilog2 r" "- 24"] by simp
    also have "\<dots> \<le> r * pow2 (- 24)"
      using ilog2_bounds [OF assms(1)] by (intro mult_right_mono) simp_all
    finally show ?thesis by (simp add: half)
  qed
  have general: "ulp / 2 \<le> r * pow2 (- 24) + pow2 (- 150)"
  proof (cases "pow2 (- 126) \<le> r")
    case True
    from normal [OF True] show ?thesis using pow2_nonneg [of "- 150"] by linarith
  next
    case False
    then have "r < pow2 (- 126)" by simp
    from ilog2_less [OF assms(1) this] have "e = - 126" by (simp add: e_def)
    then have "ulp / 2 = pow2 (- 150)" by (simp add: half)
    moreover have "0 \<le> r * pow2 (- 24)" using assms(1) by simp
    ultimately show ?thesis by linarith
  qed
  have nonneg: "0 \<le> v"
    using assms(1) up by (simp add: v_def round_half_even_nonneg)
  have "v \<le> r + (r * pow2 (- 24) + pow2 (- 150))" using err general by linarith
  also have "\<dots> < pow2 127 + (pow2 127 * pow2 (- 24) + pow2 (- 150))"
    using assms(2) by (intro add_strict_mono add_strict_right_mono mult_strict_right_mono) simp_all
  also have "\<dots> \<le> pow2 128" by (simp add: pow2_def)
  finally have small: "\<not> pow2 128 \<le> v" by simp
  have "round32 r = Finite v"
    using round32_pos [OF assms(1)] small by (simp add: Let_def e_def ulp_def v_def)
  with nonneg err general normal show ?thesis by (intro exI [of _ v]) auto
qed

text \<open>An integer from 1 to \<open>2^24\<close> is a binary32 number: its conversion is exact.\<close>

lemma float_of_int_exact:
  assumes "1 \<le> n" and "n \<le> 2 ^ 24"
  shows "float_of_int n = Finite (of_int n)"
proof -
  define r where "r = (of_int n :: rat)"
  have pos: "0 < r" using assms(1) by (simp add: r_def)
  have "pow2 0 \<le> r" using assms(1) by (simp add: r_def pow2_numerals(2))
  from ilog2_ge [OF this] have e0: "0 \<le> ilog2 r" .
  have "(of_int n :: rat) \<le> of_int (2 ^ 24)" using assms(2) by (simp only: of_int_le_iff)
  then have r24: "r \<le> 2 ^ 24" by (simp add: r_def)
  have "r < pow2 25" using r24 by (simp add: pow2_def)
  from ilog2_less [OF pos this] have e24: "ilog2 r \<le> 24" by simp
  define e where "e = ilog2 r"
  have m: "max (ilog2 r) (- 126) = e" using e0 by (simp add: e_def)
  have "\<exists>k. r / pow2 (e - 23) = of_int k"
  proof (cases "e \<le> 23")
    case True
    have "r / pow2 (e - 23) = r * pow2 (- (e - 23))"
      by (simp only: pow2_minus) simp
    also have "\<dots> = of_int n * of_int (2 ^ nat (23 - e))"
      using True by (simp add: r_def pow2_def)
    also have "\<dots> = of_int (n * 2 ^ nat (23 - e))" by simp
    finally show ?thesis by blast
  next
    case False
    with e24 have e: "e = 24" by (simp add: e_def)
    have "pow2 24 \<le> r" using ilog2_bounds [OF pos] by (simp add: e [symmetric] e_def)
    then have "r = 2 ^ 24" using r24 by (simp add: pow2_def)
    then have "r / pow2 (e - 23) = of_int (2 ^ 23)" by (simp add: e pow2_def)
    then show ?thesis by blast
  qed
  then obtain k where k: "r / pow2 (e - 23) = of_int k" ..
  have nz: "pow2 (e - 23) \<noteq> 0" by (simp add: pow2_def)
  from k have rk: "of_int k * pow2 (e - 23) = r" by (simp only: nonzero_divide_eq_eq [OF nz])
  have "of_int (round_half_even (r / pow2 (e - 23))) * pow2 (e - 23) = of_int k * pow2 (e - 23)"
    by (simp only: k round_half_even_int)
  with rk have v: "of_int (round_half_even (r / pow2 (e - 23))) * pow2 (e - 23) = r"
    by (rule trans [rotated])
  have "\<not> pow2 128 \<le> r" using r24 by (simp add: pow2_def)
  then have "round32 r = Finite r"
    using round32_pos [OF pos] by (simp add: Let_def m v)
  then show ?thesis by (simp add: float_of_int_def r_def)
qed

lemma floor_close:
  fixes u w :: rat
  assumes "\<bar>u - w\<bar> < 1"
  shows "\<bar>\<lfloor>u\<rfloor> - \<lfloor>w\<rfloor>\<bar> \<le> 1"
proof -
  have "u < of_int \<lfloor>w\<rfloor> + 2" using assms floor_correct [of w] by linarith
  then have "u < of_int (\<lfloor>w\<rfloor> + 2)" by simp
  then have a: "\<lfloor>u\<rfloor> < \<lfloor>w\<rfloor> + 2" by (simp only: floor_less_iff)
  have "w < of_int \<lfloor>u\<rfloor> + 2" using assms floor_correct [of u] by linarith
  then have "w < of_int (\<lfloor>u\<rfloor> + 2)" by simp
  then have b: "\<lfloor>w\<rfloor> < \<lfloor>u\<rfloor> + 2" by (simp only: floor_less_iff)
  from a b show ?thesis by linarith
qed

lemma round_half_away_close:
  assumes "0 \<le> x" and "0 \<le> y" and "\<bar>x - y\<bar> \<le> 1 / 2"
  shows "\<bar>max 1 (round_half_away x) - max 1 (round_half_away y)\<bar> \<le> 1"
proof -
  have "\<bar>(x + 1 / 2) - (y + 1 / 2)\<bar> < 1" using assms(3) by simp
  from floor_close [OF this] have "\<bar>\<lfloor>x + 1 / 2\<rfloor> - \<lfloor>y + 1 / 2\<rfloor>\<bar> \<le> 1" .
  then show ?thesis using assms(1,2) by (simp add: round_half_away_def)
qed

lemma fdiv_finite:
  "x \<noteq> 0 \<Longrightarrow> y \<noteq> 0 \<Longrightarrow> fdiv (Finite x) (Finite y) = round32 (x / y)"
  by (simp add: fdiv_def is_inf_def is_zero_def rat_of_fval_def)

lemma sint_zero_iff: "sint (d :: 32 word) = 0 \<longleftrightarrow> d = 0"
proof
  assume "sint d = 0"
  then have "word_of_int (sint d) = (word_of_int 0 :: 32 word)" by simp
  then show "d = 0" by simp
qed simp

text \<open>
  For a delta of magnitude up to \<open>2^24\<close> and a positive scale factor, the product that
  the code computes in \<open>float\<close> lies within half a tick of the exact
  \<open>128 / |d| * s\<close>, as long as that is at most \<open>2^21\<close>.
\<close>

lemma update_units_f_close:
  assumes "delta \<noteq> 0" and "\<bar>sint delta\<bar> \<le> 2 ^ 24" and "valof scale = Finite a" and "0 < a"
    and "128 / of_int \<bar>sint delta\<bar> * a \<le> 2 ^ 21"
  shows "\<exists>x. update_units_f scale delta = Finite x \<and> 0 \<le> x
           \<and> \<bar>x - 128 / of_int \<bar>sint delta\<bar> * a\<bar> \<le> 1 / 2"
proof -
  define n where "n = \<bar>sint delta\<bar>"
  define Q where "Q = (128 / of_int n :: rat)"
  define X where "X = Q * a"
  define c where "c = pow2 (- 24)"
  define t where "t = pow2 (- 150)"
  have c: "0 \<le> c" "c \<le> 1" "c < 1" and ceq: "c = 1 / 2 ^ 24" by (simp_all add: c_def pow2_def)
  have "pow2 (- 150) \<le> pow2 (- 3)" by (rule pow2_mono) simp
  then have t: "0 \<le> t" "t \<le> 1 / 8" by (simp_all add: t_def) (simp add: pow2_def)
  have n1: "1 \<le> n" using assms(1) by (simp add: n_def sint_zero_iff [symmetric])
  have n24: "n \<le> 2 ^ 24" using assms(2) by (simp add: n_def)
  have nmin: "delta \<noteq> INT32_MIN"
  proof
    assume "delta = INT32_MIN"
    then have "\<bar>sint delta\<bar> = 2 ^ 31" by (simp add: INT32_MIN_def)
    with assms(2) show False by simp
  qed
  have npos: "(0 :: rat) < of_int n" using n1 by simp
  have "(of_int n :: rat) \<le> of_int (2 ^ 24)" using n24 by (simp only: of_int_le_iff)
  then have nr: "(of_int n :: rat) \<le> 2 ^ 24" by simp
  have Qpos: "0 < Q" using npos by (simp add: Q_def)
  have "128 / 2 ^ 24 \<le> (128 / of_int n :: rat)"
    using npos nr by (intro divide_left_mono) simp_all
  moreover have "pow2 (- 126) \<le> pow2 (- 17)" by (rule pow2_mono) simp
  moreover have "pow2 (- 17) = 128 / 2 ^ 24" by (simp add: pow2_def)
  ultimately have Qnormal: "pow2 (- 126) \<le> Q" by (simp add: Q_def)
  have "(128 / of_int n :: rat) \<le> 128 / 1" using npos n1 by (intro divide_left_mono) simp_all
  then have "Q \<le> 128" by (simp add: Q_def)
  moreover have "(128 :: rat) < pow2 127"
  proof -
    have "pow2 7 < pow2 127" by (rule pow2_strict_mono) simp
    then show ?thesis by (simp add: pow2_def)
  qed
  ultimately have Qsmall: "Q < pow2 127" by linarith
  from round32_error [OF Qpos Qsmall] Qnormal obtain q
    where q: "round32 Q = Finite q" "\<bar>q - Q\<bar> \<le> Q * c" by (auto simp: c_def)
  have "Q * c < Q * 1" using Qpos c(3) by (intro mult_strict_left_mono) simp_all
  with q(2) have qpos: "0 < q" by linarith
  have Xpos: "0 < X" using Qpos assms(4) by (simp add: X_def)
  have X21: "X \<le> 2 ^ 21" using assms(5) by (simp add: X_def Q_def n_def)
  have e1: "\<bar>q * a - X\<bar> \<le> X * c"
  proof -
    have "q * a - X = (q - Q) * a" by (simp add: X_def algebra_simps)
    then have "\<bar>q * a - X\<bar> = \<bar>q - Q\<bar> * a" using assms(4) by (simp add: abs_mult)
    also have "\<dots> \<le> Q * c * a" using q(2) assms(4) by (intro mult_right_mono) simp_all
    finally show ?thesis by (simp add: X_def algebra_simps)
  qed
  have Xc: "X * c \<le> 1 / 8"
  proof -
    have "X * c \<le> 2 ^ 21 * c" using X21 c(1) by (intro mult_right_mono)
    then show ?thesis by (simp add: ceq)
  qed
  have Xc0: "0 \<le> X * c" using Xpos c(1) by simp
  have qa_pos: "0 < q * a" using qpos assms(4) by simp
  have qa_le: "q * a \<le> X + X * c" using e1 by linarith
  have "2 ^ 21 + 1 / 8 < pow2 127"
  proof -
    have "pow2 22 < pow2 127" by (rule pow2_strict_mono) simp
    then show ?thesis by (simp add: pow2_def)
  qed
  with qa_le X21 Xc have qa_small: "q * a < pow2 127" by linarith
  from round32_error [OF qa_pos qa_small] obtain x
    where x: "round32 (q * a) = Finite x" "0 \<le> x" "\<bar>x - q * a\<bar> \<le> q * a * c + t"
    by (auto simp: c_def t_def)
  have "q * a * c \<le> (X + X * c) * c" using qa_le c(1) by (intro mult_right_mono)
  also have "\<dots> = X * c + X * c * c" by (simp add: algebra_simps)
  also have "\<dots> \<le> X * c + X * c * 1" using Xc0 c(2) by (intro add_left_mono mult_left_mono)
  finally have e2: "q * a * c \<le> 1 / 4" using Xc by simp
  from x(3) e2 e1 Xc t have close: "\<bar>x - X\<bar> \<le> 1 / 2" by linarith
  have f128: "float_of_int 128 = Finite 128"
    using float_of_int_exact [of 128] by simp
  have fn: "float_of_int n = Finite (of_int n)" using n1 n24 by (rule float_of_int_exact)
  have "update_units_f scale delta = fmul (fdiv (Finite 128) (Finite (of_int n))) (Finite a)"
    by (simp add: update_units_f_abs [OF nmin] n_def [symmetric] f128 fn assms(3))
  also have "fdiv (Finite 128) (Finite (of_int n)) = Finite q"
    using npos q(1) by (simp add: fdiv_finite Q_def)
  also have "fmul (Finite q) (Finite a) = Finite x"
    using qpos assms(4) x(1) by (simp add: fmul_finite)
  finally have "update_units_f scale delta = Finite x" .
  with x(2) close show ?thesis
    by (intro exI [of _ x]) (simp add: X_def Q_def n_def)
qed

lemma interval_close:
  assumes "delta \<noteq> 0" and "\<bar>sint delta\<bar> \<le> 2 ^ 24" and "valof scale = Finite a" and "0 < a"
    and "128 / of_int \<bar>sint delta\<bar> * a \<le> 2 ^ 21"
  shows "\<exists>k. process_update_units scale delta = Some (word_of_int k) \<and> 1 \<le> k \<and> k < 2 ^ 64
           \<and> \<bar>k - interval_spec a (sint delta)\<bar> \<le> 1"
proof -
  define X where "X = (128 / of_int \<bar>sint delta\<bar> * a :: rat)"
  from update_units_f_close [OF assms] obtain x
    where x: "update_units_f scale delta = Finite x" "0 \<le> x" "\<bar>x - X\<bar> \<le> 1 / 2"
    by (auto simp: X_def)
  have X0: "0 \<le> X" using assms(4) by (simp add: X_def)
  have "X \<le> 2 ^ 21" using assms(5) by (simp add: X_def)
  moreover have "(2 :: rat) ^ 21 + 1 < 2 ^ 64" by simp
  ultimately have fit: "x + 1 / 2 < 2 ^ 64" using x(3) by linarith
  define k where "k = max 1 (round_half_away x)"
  have u: "process_update_units scale delta = Some (word_of_int k)"
    using fit by (simp add: process_update_units_nonzero [OF assms(1)] x(1) clamped_ticks_finite k_def)
  have k1: "1 \<le> k" by (simp add: k_def)
  have k64: "k < 2 ^ 64"
    using fit floor_half_less [of x] by (simp add: k_def round_half_away_max)
  have "\<bar>k - interval_spec a (sint delta)\<bar> \<le> 1"
    unfolding k_def interval_spec_def X_def [symmetric]
    using x(2) X0 x(3) by (rule round_half_away_close)
  with u k1 k64 show ?thesis by blast
qed

lemma stepper_four_turns:
  assumes ph: "0 \<le>s phase q" "phase q \<le>s 3" and v: "4 \<le>s value' q"
  shows "phase (stepper_turn (stepper_turn (stepper_turn (stepper_turn q)))) = phase q"
proof -
  from v have v4: "int 3 + 1 \<le> sint (value' q)" by (simp add: word_sle_eq)
  define q1 where "q1 = stepper_turn q"
  define q2 where "q2 = stepper_turn q1"
  define q3 where "q3 = stepper_turn q2"
  have e1: "q1 = q\<lparr>value' := value' q - 1, phase := next_phase (dir q) (phase q)\<rparr>"
    unfolding q1_def using sless_dec(1) [OF v4] by (rule stepper_turn_advance)
  have v3: "int 2 + 1 \<le> sint (value' q1)" using sless_dec(2) [OF v4] by (simp add: e1)
  have e2: "q2 = q1\<lparr>value' := value' q1 - 1, phase := next_phase (dir q1) (phase q1)\<rparr>"
    unfolding q2_def using sless_dec(1) [OF v3] by (rule stepper_turn_advance)
  have v2: "int 1 + 1 \<le> sint (value' q2)" using sless_dec(2) [OF v3] by (simp add: e2)
  have e3: "q3 = q2\<lparr>value' := value' q2 - 1, phase := next_phase (dir q2) (phase q2)\<rparr>"
    unfolding q3_def using sless_dec(1) [OF v2] by (rule stepper_turn_advance)
  have v1: "int 0 + 1 \<le> sint (value' q3)" using sless_dec(2) [OF v2] by (simp add: e3)
  have e4: "stepper_turn q3 = q3\<lparr>value' := value' q3 - 1, phase := next_phase (dir q3) (phase q3)\<rparr>"
    using sless_dec(1) [OF v1] by (rule stepper_turn_advance)
  have "phase (stepper_turn q3) = next_phase (dir q3) (phase q3)"
    by (subst e4) simp
  also have "\<dots> =
      next_phase (dir q) (next_phase (dir q) (next_phase (dir q) (next_phase (dir q) (phase q))))"
    by (simp add: e3 e2 e1)
  finally show ?thesis
    using next_phase_four [OF ph] by (simp add: q3_def q2_def q1_def)
qed

lemma stepper_advance_table:
  assumes "0 \<le>s phase q" and "phase q \<le>s 3" and pos: "0 <s value' q"
  shows "sint (phase (stepper_turn q)) =
           (if dir q = PHASE_DIRECTION_POS then (sint (phase q) + 1) mod 4
            else (sint (phase q) - 1) mod 4)"
    and "fst (snd (process_quadrature q)) =
           [Gpio_set_level (gpio_a (gpios q)) (fst (quadrature_table (sint (phase (stepper_turn q))))),
            Gpio_set_level (gpio_b (gpios q)) (snd (quadrature_table (sint (phase (stepper_turn q)))))]"
proof -
  show "sint (phase (stepper_turn q)) =
          (if dir q = PHASE_DIRECTION_POS then (sint (phase q) + 1) mod 4
           else (sint (phase q) - 1) mod 4)"
    using next_phase_sint [OF assms(1,2)] by (simp add: stepper_turn_advance [OF pos])
  have "phase (stepper_turn q) = next_phase (dir q) (phase q)"
    by (simp add: stepper_turn_advance [OF pos])
  moreover note table_of_phase [of "next_phase (dir q) (phase q)"]
    next_phase_range [OF assms(1,2), of "dir q"]
  ultimately show "fst (snd (process_quadrature q)) =
      [Gpio_set_level (gpio_a (gpios q)) (fst (quadrature_table (sint (phase (stepper_turn q))))),
       Gpio_set_level (gpio_b (gpios q)) (snd (quadrature_table (sint (phase (stepper_turn q)))))]"
    by (simp add: process_quadrature_pins [OF pos] Let_def)
qed

section \<open>Claims about the stepper\<close>

text \<open>
  C1. When a turn of the stepper advances (the count is positive) from a phase in 0..3,
  the new phase is the old one plus 1 modulo 4 in the positive direction and minus 1
  modulo 4 in the negative direction, and the two levels written to the pins \<open>a\<close> and
  \<open>b\<close> of the encoder are the quadrature table's entry for the new phase. Four advances
  in one direction return to the starting phase. In every state reached from \<open>init\<close>
  the phase of every encoder is in 0..3.
\<close>

theorem stepper_follows_quadrature_table:
  "(0 \<le>s phase q \<and> phase q \<le>s 3 \<and> 0 <s value' q \<longrightarrow>
      sint (phase (stepper_turn q)) =
        (if dir q = PHASE_DIRECTION_POS then (sint (phase q) + 1) mod 4
         else (sint (phase q) - 1) mod 4)
      \<and> fst (snd (process_quadrature q)) =
          [Gpio_set_level (gpio_a (gpios q)) (fst (quadrature_table (sint (phase (stepper_turn q))))),
           Gpio_set_level (gpio_b (gpios q)) (snd (quadrature_table (sint (phase (stepper_turn q)))))])
   \<and> (0 \<le>s phase q \<and> phase q \<le>s 3 \<and> 4 \<le>s value' q \<longrightarrow>
        phase (stepper_turn (stepper_turn (stepper_turn (stepper_turn q)))) = phase q)
   \<and> 0 \<le>s phase (s_quadratures
               (run PORT_MAX evs (uni_mouse_quadrature_init PORT_MAX env cpu_id w0)) i j)
   \<and> phase (s_quadratures
               (run PORT_MAX evs (uni_mouse_quadrature_init PORT_MAX env cpu_id w0)) i j) \<le>s 3"
proof (intro conjI impI)
  assume a: "0 \<le>s phase q \<and> phase q \<le>s 3 \<and> 0 <s value' q"
  then have h: "0 \<le>s phase q" "phase q \<le>s 3" "0 <s value' q" by simp_all
  show "sint (phase (stepper_turn q)) =
          (if dir q = PHASE_DIRECTION_POS then (sint (phase q) + 1) mod 4
           else (sint (phase q) - 1) mod 4)"
    using h by (rule stepper_advance_table(1))
  show "fst (snd (process_quadrature q)) =
      [Gpio_set_level (gpio_a (gpios q)) (fst (quadrature_table (sint (phase (stepper_turn q))))),
       Gpio_set_level (gpio_b (gpios q)) (snd (quadrature_table (sint (phase (stepper_turn q)))))]"
    using h by (rule stepper_advance_table(2))
next
  assume "0 \<le>s phase q \<and> phase q \<le>s 3 \<and> 4 \<le>s value' q"
  then have "0 \<le>s phase q" "phase q \<le>s 3" "4 \<le>s value' q" by simp_all
  then show "phase (stepper_turn (stepper_turn (stepper_turn (stepper_turn q)))) = phase q"
    by (rule stepper_four_turns)
next
  show "0 \<le>s phase (s_quadratures
               (run PORT_MAX evs (uni_mouse_quadrature_init PORT_MAX env cpu_id w0)) i j)"
    using phase_in_range_after_init [of PORT_MAX evs env cpu_id w0 i j] by simp
  show "phase (s_quadratures
               (run PORT_MAX evs (uni_mouse_quadrature_init PORT_MAX env cpu_id w0)) i j) \<le>s 3"
    using phase_in_range_after_init [of PORT_MAX evs env cpu_id w0 i j] by simp
qed

theorem stepper_follows_quadrature_table_witness:
  "0 \<le>s phase q_ex \<and> phase q_ex \<le>s 3 \<and> 0 <s value' q_ex \<and> 4 \<le>s value' q_ex
   \<and> sint (phase (stepper_turn q_ex)) = 3
   \<and> fst (snd (process_quadrature q_ex)) = [Gpio_set_level 26 0, Gpio_set_level 27 1]
   \<and> phase (stepper_turn (stepper_turn (stepper_turn (stepper_turn q_ex)))) = phase q_ex"
proof -
  have h: "0 \<le>s phase q_ex \<and> phase q_ex \<le>s 3 \<and> 0 <s value' q_ex"
    "0 \<le>s phase q_ex \<and> phase q_ex \<le>s 3 \<and> 4 \<le>s value' q_ex"
    by (simp_all add: q_ex_def word_sle_eq word_sless_alt)
  have d: "dir q_ex = PHASE_DIRECTION_NEG" "sint (phase q_ex) = 0"
    "gpios q_ex = \<lparr>gpio_a = 26, gpio_b = 27\<rparr>"
    by (simp_all add: q_ex_def)
  from stepper_follows_quadrature_table [of q_ex 2 "[]" env_ok 0 w_ex 0 0] h
  have "sint (phase (stepper_turn q_ex)) = 3"
    and "fst (snd (process_quadrature q_ex)) =
              [Gpio_set_level (gpio_a (gpios q_ex)) (fst (quadrature_table (sint (phase (stepper_turn q_ex))))),
               Gpio_set_level (gpio_b (gpios q_ex)) (snd (quadrature_table (sint (phase (stepper_turn q_ex)))))]"
    and "phase (stepper_turn (stepper_turn (stepper_turn (stepper_turn q_ex)))) = phase q_ex"
    by (simp_all add: d)
  then show ?thesis using h by (simp add: d quadrature_table_def)
qed

text \<open>
  C2. For every non-zero delta of the delta range (the theorem takes every \<open>int32_t\<close>
  but \<open>INT32_MIN\<close>, the one value whose negation the language leaves undefined), after
  \<open>process_update\<close> the count of the encoder is the absolute value of the delta and its
  direction is negative exactly when the delta is negative. A turn of the stepper with a
  positive count lowers the count by exactly 1, so \<open>k\<close> turns lower a count of at least
  \<open>k\<close> by \<open>k\<close>; at count 0 a turn changes nothing and writes no pin, however often it
  is repeated.
\<close>

theorem update_sets_count_stepper_counts_down:
  "(delta \<noteq> 0 \<and> delta \<noteq> INT32_MIN \<longrightarrow>
      sint (value' (fst (process_update scale q delta))) = \<bar>sint delta\<bar>
      \<and> (dir (fst (process_update scale q delta)) = PHASE_DIRECTION_NEG \<longleftrightarrow> sint delta < 0))
   \<and> (0 <s value' q \<longrightarrow> sint (value' (stepper_turn q)) = sint (value' q) - 1)
   \<and> (int k \<le> sint (value' q) \<longrightarrow>
        sint (value' ((stepper_turn ^^ k) q)) = sint (value' q) - int k)
   \<and> (value' q = 0 \<longrightarrow> process_quadrature q = (q, [], []) \<and> (stepper_turn ^^ n) q = q)"
proof (intro conjI impI)
  assume d: "delta \<noteq> 0 \<and> delta \<noteq> INT32_MIN"
  then show "sint (value' (fst (process_update scale q delta))) = \<bar>sint delta\<bar>"
    using sint_abs_delta [of delta] by (simp add: process_update_state)
  from d show "dir (fst (process_update scale q delta)) = PHASE_DIRECTION_NEG \<longleftrightarrow> sint delta < 0"
    by (simp add: process_update_state word_sless_alt)
next
  assume pos: "0 <s value' q"
  show "sint (value' (stepper_turn q)) = sint (value' q) - 1"
    using sint_dec [OF pos] by (simp add: stepper_turn_advance [OF pos])
next
  assume "int k \<le> sint (value' q)"
  then show "sint (value' ((stepper_turn ^^ k) q)) = sint (value' q) - int k"
    by (rule stepper_turns_count)
next
  assume z: "value' q = 0"
  then have le: "value' q \<le>s 0" by simp
  show "process_quadrature q = (q, [], [])" using le by (rule process_quadrature_idle)
  show "(stepper_turn ^^ n) q = q" using le by (rule stepper_turns_idle)
qed

theorem update_sets_count_stepper_counts_down_witness:
  "(7 :: int32_t) \<noteq> 0 \<and> (7 :: int32_t) \<noteq> INT32_MIN
   \<and> sint (value' (fst (process_update 0x3F800000 q_ex 7))) = 7
   \<and> dir (fst (process_update 0x3F800000 q_ex 7)) \<noteq> PHASE_DIRECTION_NEG
   \<and> 0 <s value' q_ex \<and> sint (value' (stepper_turn q_ex)) = 4
   \<and> int 5 \<le> sint (value' q_ex) \<and> sint (value' ((stepper_turn ^^ 5) q_ex)) = 0
   \<and> value' ((stepper_turn ^^ 5) q_ex) = 0
   \<and> process_quadrature ((stepper_turn ^^ 5) q_ex) = ((stepper_turn ^^ 5) q_ex, [], [])
   \<and> (stepper_turn ^^ 3) ((stepper_turn ^^ 5) q_ex) = (stepper_turn ^^ 5) q_ex"
proof -
  have h: "(7 :: int32_t) \<noteq> 0 \<and> (7 :: int32_t) \<noteq> INT32_MIN" "0 <s value' q_ex"
    "int 5 \<le> sint (value' q_ex)"
    by (simp_all add: INT32_MIN_def q_ex_def word_sless_alt)
  have v: "sint (value' q_ex) = 5" by (simp add: q_ex_def)
  note t1 = update_sets_count_stepper_counts_down [of 7 "0x3F800000" q_ex 5 3]
  from t1 h v have a: "sint (value' (fst (process_update 0x3F800000 q_ex 7))) = 7"
    "dir (fst (process_update 0x3F800000 q_ex 7)) \<noteq> PHASE_DIRECTION_NEG"
    "sint (value' (stepper_turn q_ex)) = 4"
    "sint (value' ((stepper_turn ^^ 5) q_ex)) = 0"
    by simp_all
  have "word_of_int (sint (value' ((stepper_turn ^^ 5) q_ex))) = (0 :: 32 word)"
    by (simp only: a(4) word_of_int_0)
  then have z: "value' ((stepper_turn ^^ 5) q_ex) = 0" by simp
  note t2 = update_sets_count_stepper_counts_down [of 7 "0x3F800000" "(stepper_turn ^^ 5) q_ex" 0 3]
  from t2 z have b: "process_quadrature ((stepper_turn ^^ 5) q_ex) = ((stepper_turn ^^ 5) q_ex, [], [])"
    "(stepper_turn ^^ 3) ((stepper_turn ^^ 5) q_ex) = (stepper_turn ^^ 5) q_ex"
    by simp_all
  from h v a z b show ?thesis by simp
qed

text \<open>
  Outside the delta range: with the negation of \<open>INT32_MIN\<close> taken to wrap around, as
  the machine's negation does, the count after such an update is \<open>INT32_MIN\<close> itself.
\<close>

lemma process_update_at_int32_min:
  "INT32_MIN \<noteq> 0
   \<and> sint (value' (fst (process_update 0x3F800000 q_ex INT32_MIN))) \<noteq> \<bar>sint INT32_MIN\<bar>"
  by (simp add: process_update_state INT32_MIN_def word_sless_alt)

section \<open>Claims about the rate converter\<close>

text \<open>
  C3, amended. For every non-zero delta of the delta range (any \<open>int32_t\<close> but
  \<open>INT32_MIN\<close>) the count given to the timer is the product
  \<open>128 / |d| * s\<close> as \<open>float\<close> arithmetic computes it (the division and the
  multiplication each rounded to the nearest \<open>float\<close>), rounded to a whole number and not
  below 1, whenever that product is finite and rounds to less than \<open>2^64\<close>. It is the
  specification's interval, \<open>round(128 / |d| * s)\<close> clamped to at least 1, when the
  \<open>float\<close> product is exact; for a delta of magnitude up to \<open>2^24\<close>, a positive scale
  factor and an exact product of at most \<open>2^21\<close> it is defined and differs from the
  specification's interval by at most one tick. A count that is defined is never below
  1. With scale factor 1, \<open>update\<close> of port 0 with \<open>dx = 64\<close> and \<open>dy = 0\<close> sets the
  horizontal timer to 2 ticks (and the vertical one to the idle 750000).
\<close>

theorem rate_converter_interval:
  "(delta \<noteq> INT32_MIN \<longrightarrow>
        update_units_f scale delta =
          fmul (fdiv (float_of_int 128) (float_of_int \<bar>sint delta\<bar>)) (valof scale))
   \<and> (delta \<noteq> 0 \<and> update_units_f scale delta = Finite r \<and> r + 1 / 2 < 2 ^ 64 \<longrightarrow>
        process_update_units scale delta = Some (word_of_int (max 1 (round_half_away r))))
   \<and> (delta \<noteq> 0 \<and> update_units_f scale delta = Finite (128 / of_int \<bar>sint delta\<bar> * a)
        \<and> 128 / of_int \<bar>sint delta\<bar> * a + 1 / 2 < 2 ^ 64 \<longrightarrow>
        process_update_units scale delta = Some (word_of_int (interval_spec a (sint delta))))
   \<and> (delta \<noteq> 0 \<and> \<bar>sint delta\<bar> \<le> 2 ^ 24 \<and> valof scale = Finite a \<and> 0 < a
        \<and> 128 / of_int \<bar>sint delta\<bar> * a \<le> 2 ^ 21 \<longrightarrow>
        process_update_units scale delta \<noteq> None
        \<and> (\<forall>v. process_update_units scale delta = Some v \<longrightarrow>
              \<bar>uint v - interval_spec a (sint delta)\<bar> \<le> 1))
   \<and> (delta \<noteq> 0 \<and> process_update_units scale delta = Some u \<longrightarrow> 1 \<le> u)
   \<and> (0 <s PORT_MAX \<and> s_scale_factor w = 0x3F800000 \<longrightarrow>
        hw (uni_mouse_quadrature_update PORT_MAX 0 64 0 w) =
          hw w @ [Timer_set_counter_value
                    (timer_group (s_quadratures w 0 UNI_MOUSE_QUADRATURE_ENCODER_H))
                    (timer_idx (s_quadratures w 0 UNI_MOUSE_QUADRATURE_ENCODER_H)) (Some 2),
                  Timer_set_counter_value
                    (timer_group (s_quadratures w 0 UNI_MOUSE_QUADRATURE_ENCODER_V))
                    (timer_idx (s_quadratures w 0 UNI_MOUSE_QUADRATURE_ENCODER_V)) (Some 750000)])"
proof (intro conjI impI allI)
  assume "delta \<noteq> INT32_MIN"
  then show "update_units_f scale delta =
          fmul (fdiv (float_of_int 128) (float_of_int \<bar>sint delta\<bar>)) (valof scale)"
    by (rule update_units_f_abs)
next
  assume "delta \<noteq> 0 \<and> update_units_f scale delta = Finite r \<and> r + 1 / 2 < 2 ^ 64"
  then show "process_update_units scale delta = Some (word_of_int (max 1 (round_half_away r)))"
    by (simp add: process_update_units_nonzero clamped_ticks_finite)
next
  assume "delta \<noteq> 0 \<and> update_units_f scale delta = Finite (128 / of_int \<bar>sint delta\<bar> * a)
        \<and> 128 / of_int \<bar>sint delta\<bar> * a + 1 / 2 < 2 ^ 64"
  then show "process_update_units scale delta = Some (word_of_int (interval_spec a (sint delta)))"
    by (simp add: process_update_units_nonzero clamped_ticks_finite interval_spec_def)
next
  assume a: "delta \<noteq> 0 \<and> \<bar>sint delta\<bar> \<le> 2 ^ 24 \<and> valof scale = Finite a \<and> 0 < a
        \<and> 128 / of_int \<bar>sint delta\<bar> * a \<le> 2 ^ 21"
  then have h: "delta \<noteq> 0" "\<bar>sint delta\<bar> \<le> 2 ^ 24" "valof scale = Finite a" "0 < a"
    "128 / of_int \<bar>sint delta\<bar> * a \<le> 2 ^ 21"
    by simp_all
  from interval_close [OF h] obtain k
    where k: "process_update_units scale delta = Some (word_of_int k)" "1 \<le> k" "k < 2 ^ 64"
      "\<bar>k - interval_spec a (sint delta)\<bar> \<le> 1"
    by blast
  from k(1) show "process_update_units scale delta \<noteq> None" by simp
  fix v
  assume "process_update_units scale delta = Some v"
  with k(1) have "v = word_of_int k" by simp
  then have "uint v = k" using k(2,3) by (simp add: uint_word64_of_int)
  with k(4) show "\<bar>uint v - interval_spec a (sint delta)\<bar> \<le> 1" by simp
next
  assume "delta \<noteq> 0 \<and> process_update_units scale delta = Some u"
  then have d: "delta \<noteq> 0" and "process_update_units scale delta = Some u" by simp_all
  with process_update_units_nonzero [OF d, of scale]
  have "clamped_ticks (update_units_f scale delta) = Some u" by simp
  then show "1 \<le> u" by (rule clamped_ticks_ge1)
next
  assume a: "0 <s PORT_MAX \<and> s_scale_factor w = 0x3F800000"
  have u: "process_update_units 0x3F800000 64 = Some 2"
    "process_update_units 0x3F800000 0 = Some 750000"
    by code_simp+
  have z: "0 \<le>s (0 :: c_int)" by simp
  from a have v: "(0 :: c_int) <s PORT_MAX" by simp
  show "hw (uni_mouse_quadrature_update PORT_MAX 0 64 0 w) =
          hw w @ [Timer_set_counter_value
                    (timer_group (s_quadratures w 0 UNI_MOUSE_QUADRATURE_ENCODER_H))
                    (timer_idx (s_quadratures w 0 UNI_MOUSE_QUADRATURE_ENCODER_H)) (Some 2),
                  Timer_set_counter_value
                    (timer_group (s_quadratures w 0 UNI_MOUSE_QUADRATURE_ENCODER_V))
                    (timer_idx (s_quadratures w 0 UNI_MOUSE_QUADRATURE_ENCODER_V)) (Some 750000)]"
    using a by (simp add: update_valid [OF z v] u UNI_MOUSE_QUADRATURE_ENCODER_H_def
        UNI_MOUSE_QUADRATURE_ENCODER_V_def)
qed

theorem rate_converter_interval_witness:
  "(3 :: int32_t) \<noteq> INT32_MIN
   \<and> fmul (fdiv (float_of_int 128) (float_of_int \<bar>sint (3 :: int32_t)\<bar>)) (valof 0x3F800000) =
        Finite (11184811 / 262144)
   \<and> (3 :: int32_t) \<noteq> 0 \<and> update_units_f 0x3F800000 3 = Finite (11184811 / 262144)
   \<and> (11184811 / 262144 :: rat) + 1 / 2 < 2 ^ 64
   \<and> process_update_units 0x3F800000 3 = Some 43 \<and> (1 :: uint64_t) \<le> 43
   \<and> (64 :: int32_t) \<noteq> 0 \<and> valof 0x3F800000 = Finite 1
   \<and> update_units_f 0x3F800000 64 = Finite (128 / of_int \<bar>sint (64 :: int32_t)\<bar> * 1)
   \<and> 128 / of_int \<bar>sint (64 :: int32_t)\<bar> * (1 :: rat) + 1 / 2 < 2 ^ 64
   \<and> interval_spec 1 (sint (64 :: int32_t)) = 2
   \<and> process_update_units 0x3F800000 64 = Some 2
   \<and> (41 :: int32_t) \<noteq> 0 \<and> \<bar>sint (41 :: int32_t)\<bar> \<le> 2 ^ 24
   \<and> valof 0x3F8F8000 = Finite (287 / 256) \<and> (0 :: rat) < 287 / 256
   \<and> 128 / of_int \<bar>sint (41 :: int32_t)\<bar> * (287 / 256 :: rat) \<le> 2 ^ 21
   \<and> process_update_units 0x3F8F8000 41 = Some 3
   \<and> \<bar>uint (3 :: uint64_t) - interval_spec (287 / 256) (sint (41 :: int32_t))\<bar> \<le> 1
   \<and> (0 :: c_int) <s 2 \<and> s_scale_factor w_ex = 0x3F800000
   \<and> hw (uni_mouse_quadrature_update 2 0 64 0 w_ex) =
        [Timer_set_counter_value 0 0 (Some 2), Timer_set_counter_value 0 0 (Some 750000)]"
proof -
  have g: "(0 :: c_int) <s 2 \<and> s_scale_factor w_ex = 0x3F800000"
    by (simp add: w_ex_def word_sless_alt)
  have k: "hw w_ex = []" "s_quadratures w_ex 0 UNI_MOUSE_QUADRATURE_ENCODER_H = q_ex"
    "s_quadratures w_ex 0 UNI_MOUSE_QUADRATURE_ENCODER_V = q_ex"
    "timer_group q_ex = 0" "timer_idx q_ex = 0"
    by (simp_all add: w_ex_def q_ex_def)
  have h3: "(3 :: int32_t) \<noteq> 0" by simp
  have n3: "(3 :: int32_t) \<noteq> INT32_MIN" by (simp add: INT32_MIN_def)
  have f3: "update_units_f 0x3F800000 3 = Finite (11184811 / 262144)" by code_simp
  have b3: "(11184811 / 262144 :: rat) + 1 / 2 < 2 ^ 64" by simp
  have m3: "max 1 (round_half_away (11184811 / 262144)) = 43" by code_simp
  have h64: "(64 :: int32_t) \<noteq> 0" by simp
  have v1: "valof 0x3F800000 = Finite 1" by code_simp
  have f64: "update_units_f 0x3F800000 64 = Finite (128 / of_int \<bar>sint (64 :: int32_t)\<bar> * 1)"
    by code_simp
  have b64: "128 / of_int \<bar>sint (64 :: int32_t)\<bar> * (1 :: rat) + 1 / 2 < 2 ^ 64" by simp
  have i64: "interval_spec 1 (sint (64 :: int32_t)) = 2" by code_simp
  have h41: "(41 :: int32_t) \<noteq> 0" "\<bar>sint (41 :: int32_t)\<bar> \<le> 2 ^ 24" by simp_all
  have v41: "valof 0x3F8F8000 = Finite (287 / 256)" by code_simp
  have a41: "(0 :: rat) < 287 / 256"
    "128 / of_int \<bar>sint (41 :: int32_t)\<bar> * (287 / 256 :: rat) \<le> 2 ^ 21"
    by simp_all
  have u41: "process_update_units 0x3F8F8000 41 = Some 3" by code_simp
  note t3 = rate_converter_interval [of 3 "0x3F800000" "11184811 / 262144" 1 43 2 w_ex]
  from t3 g
  have a0: "hw (uni_mouse_quadrature_update 2 0 64 0 w_ex) =
        [Timer_set_counter_value 0 0 (Some 2), Timer_set_counter_value 0 0 (Some 750000)]"
    by (simp add: k)
  from t3 h3 f3 b3
  have "process_update_units 0x3F800000 3 =
               Some (word_of_int (max 1 (round_half_away (11184811 / 262144))))"
    by blast
  then have a3: "process_update_units 0x3F800000 3 = Some 43" by (simp only: m3) simp
  from t3 h3 a3 have a5: "(1 :: uint64_t) \<le> 43" by blast
  from t3 n3
  have "update_units_f 0x3F800000 3 =
      fmul (fdiv (float_of_int 128) (float_of_int \<bar>sint (3 :: int32_t)\<bar>)) (valof 0x3F800000)"
    by blast
  with f3
  have p3: "fmul (fdiv (float_of_int 128) (float_of_int \<bar>sint (3 :: int32_t)\<bar>)) (valof 0x3F800000) =
      Finite (11184811 / 262144)"
    by simp
  note t64 = rate_converter_interval [of 64 "0x3F800000" 2 1 2 2 w_ex]
  from t64 h64 f64 b64
  have "process_update_units 0x3F800000 64 = Some (word_of_int (interval_spec 1 (sint (64 :: int32_t))))"
    by blast
  then have a64: "process_update_units 0x3F800000 64 = Some 2" by (simp only: i64) simp
  note t41 = rate_converter_interval [of 41 "0x3F8F8000" 2 "287 / 256" 3 2 w_ex]
  from t41 h41 v41 a41 u41
  have a41': "\<bar>uint (3 :: uint64_t) - interval_spec (287 / 256) (sint (41 :: int32_t))\<bar> \<le> 1"
    by blast
  from n3 p3 h3 f3 b3 a3 a5 h64 v1 f64 b64 i64 a64 h41 v41 a41 u41 a41' g a0 show ?thesis
    by (intro conjI) simp_all
qed

text \<open>
  C3 as stated fails at delta 41 with the scale factor \<open>287/256 = 1.12109375\<close>: the
  exact product is \<open>128 / 41 * 287 / 256 = 3.5\<close>, which rounds to 4 ticks, while the
  \<open>float\<close> quotient \<open>128.0f / 41.0f\<close> is a little below \<open>128 / 41\<close>, the \<open>float\<close> product
  is \<open>3.5 - 2^-22\<close> and the code sets 3 ticks. It fails also at delta 1 with the scale
  factor \<open>2^57\<close>: the product \<open>2^64\<close> does not fit the timer's 64-bit count, and the
  conversion that the code applies to it is undefined.
\<close>

theorem rate_converter_float_rounding_counterexample:
  "(41 :: int32_t) \<noteq> 0 \<and> valof 0x3F8F8000 = Finite (287 / 256)
   \<and> interval_spec (287 / 256) (sint (41 :: int32_t)) = 4
   \<and> process_update_units 0x3F8F8000 41 = Some 3
   \<and> (1 :: int32_t) \<noteq> 0 \<and> valof 0x5C000000 = Finite (2 ^ 57)
   \<and> interval_spec (2 ^ 57) (sint (1 :: int32_t)) = 2 ^ 64
   \<and> process_update_units 0x5C000000 1 = None"
  by code_simp

text \<open>
  C4, amended. Let the scale factor \<open>scale2\<close> be the double of \<open>scale\<close>, the delta not
  zero, the clamp not apply at \<open>scale\<close>, and the count at \<open>scale2\<close> be defined. Then the
  unrounded product at \<open>scale2\<close> is exactly double the one at \<open>scale\<close>, the count at
  \<open>scale\<close> is defined, and the count at \<open>scale2\<close> differs from double the count at
  \<open>scale\<close> by at most one tick; it is exactly double when the unrounded product at
  \<open>scale\<close> is a whole number.
\<close>

theorem doubled_scale_interval:
  assumes "valof scale = Finite a" and "valof scale2 = Finite (2 * a)"
    and "delta \<noteq> 0"
    and "\<not> flt (update_units_f scale delta) (Finite 1)"
    and "process_update_units scale2 delta = Some u2"
  shows "update_units_f scale2 delta = Finite (2 * rat_of_fval (update_units_f scale delta))
       \<and> process_update_units scale delta \<noteq> None
       \<and> (\<forall>u. process_update_units scale delta = Some u \<longrightarrow>
            \<bar>uint u2 - 2 * uint u\<bar> \<le> 1
            \<and> (rat_of_fval (update_units_f scale delta) \<in> \<int> \<longrightarrow> uint u2 = 2 * uint u))"
proof -
  define q where "q = fdiv (float_of_int (128 * TICKS_PER_80US))
                        (float_of_int (sint (if delta <s 0 then - delta else delta)))"
  have x: "update_units_f scale delta = fmul q (Finite a)"
    and x2: "update_units_f scale2 delta = fmul q (Finite (2 * a))"
    by (simp_all add: update_units_f_def Let_def q_def assms(1,2) split del: if_split)
  have c2: "clamped_ticks (fmul q (Finite (2 * a))) = Some u2"
    using assms(5) by (simp add: process_update_units_nonzero [OF assms(3)] x2)
  from assms(4) have "\<not> flt (fmul q (Finite a)) (Finite 1)" by (simp add: x)
  from fmul_doubled [OF this c2] obtain v
    where v: "1 \<le> v" "fmul q (Finite a) = Finite v" "fmul q (Finite (2 * a)) = Finite (2 * v)"
    by blast
  define n where "n = \<lfloor>v + 1 / 2\<rfloor>"
  define n2 where "n2 = \<lfloor>2 * v + 1 / 2\<rfloor>"
  from c2 v have b2: "2 * v + 1 / 2 < 2 ^ 64" and u2: "u2 = word_of_int n2"
    by (auto simp: clamped_ticks_def n2_def split: if_splits)
  from b2 v(1) have b: "v + 1 / 2 < 2 ^ 64" by linarith
  have u: "process_update_units scale delta = Some (word_of_int n)"
    using v(1) b
    by (simp add: process_update_units_nonzero [OF assms(3)] x v(2) clamped_ticks_def n_def)
  have un: "uint (word_of_int n :: 64 word) = n"
    unfolding n_def using floor_half_ge1 [OF v(1)] b
    by (intro uint_word64_of_int) (simp_all add: floor_half_less)
  have "1 \<le> 2 * v" using v(1) by linarith
  then have un2: "uint u2 = n2"
    unfolding u2 n2_def using floor_half_ge1 [of "2 * v"] b2
    by (intro uint_word64_of_int) (simp_all add: floor_half_less)
  have d1: "\<bar>n2 - 2 * n\<bar> \<le> 1" unfolding n_def n2_def by (rule floor_doubled(1))
  have d2: "v \<in> \<int> \<longrightarrow> n2 = 2 * n" unfolding n_def n2_def using floor_doubled(2) [of v] by blast
  have r: "rat_of_fval (Finite v) = v" by (simp add: rat_of_fval_def)
  show ?thesis
    unfolding x x2 v u r using d1 d2 by (auto simp: un un2)
qed

theorem doubled_scale_interval_witness:
  "valof 0x3F800000 = Finite 1 \<and> valof 0x40000000 = Finite (2 * 1)
   \<and> (3 :: int32_t) \<noteq> 0
   \<and> \<not> flt (update_units_f 0x3F800000 3) (Finite 1)
   \<and> process_update_units 0x40000000 3 = Some 85
   \<and> update_units_f 0x40000000 3 = Finite (2 * (11184811 / 262144))
   \<and> process_update_units 0x3F800000 3 = Some 43
   \<and> \<bar>uint (85 :: uint64_t) - 2 * uint (43 :: uint64_t)\<bar> \<le> 1
   \<and> (64 :: int32_t) \<noteq> 0
   \<and> \<not> flt (update_units_f 0x3F800000 64) (Finite 1)
   \<and> update_units_f 0x3F800000 64 = Finite 2 \<and> (2 :: rat) \<in> \<int>
   \<and> process_update_units 0x3F800000 64 = Some 2
   \<and> process_update_units 0x40000000 64 = Some 4
   \<and> uint (4 :: uint64_t) = 2 * uint (2 :: uint64_t)"
proof -
  have g: "(64 :: int32_t) \<noteq> 0"
    "\<not> flt (update_units_f 0x3F800000 64) (Finite 1)"
    "process_update_units 0x40000000 64 = Some 4"
    by code_simp+
  have e: "update_units_f 0x3F800000 64 = Finite 2"
    "process_update_units 0x3F800000 64 = Some 2"
    by code_simp+
  have i: "(2 :: rat) \<in> \<int>" by simp
  have h: "valof 0x3F800000 = Finite 1" "valof 0x40000000 = Finite (2 * 1)" "(3 :: int32_t) \<noteq> 0"
    "\<not> flt (update_units_f 0x3F800000 3) (Finite 1)"
    "process_update_units 0x40000000 3 = Some 85"
    by code_simp+
  have f: "update_units_f 0x3F800000 3 = Finite (11184811 / 262144)"
     "process_update_units 0x3F800000 3 = Some 43"
    by code_simp+
  from doubled_scale_interval [OF h] f
  have a: "update_units_f 0x40000000 3 = Finite (2 * (11184811 / 262144))"
    "\<bar>uint (85 :: uint64_t) - 2 * uint (43 :: uint64_t)\<bar> \<le> 1"
    by (simp_all add: rat_of_fval_def)
  from doubled_scale_interval [OF h(1,2) g] e i
  have b: "uint (4 :: uint64_t) = 2 * uint (2 :: uint64_t)"
    by (simp add: rat_of_fval_def)
  from h f a g e i b show ?thesis by simp
qed

text \<open>
  C4 as stated fails at delta 3 with the scale factors 1 and 2, where no clamp applies:
  the products 42.67 and 85.33 round to 43 and 85 ticks, and 85 is not twice 43.
\<close>

theorem doubled_scale_not_double_counterexample:
  "valof 0x3F800000 = Finite 1 \<and> valof 0x40000000 = Finite 2
   \<and> \<not> flt (update_units_f 0x3F800000 3) (Finite 1)
   \<and> \<not> flt (update_units_f 0x40000000 3) (Finite 1)
   \<and> process_update_units 0x3F800000 3 = Some 43
   \<and> process_update_units 0x40000000 3 = Some 85
   \<and> (85 :: uint64_t) \<noteq> 2 * 43"
  by code_simp

section \<open>Claims about the scale factor\<close>

text \<open>
  C5, amended. \<open>set_scale_factor\<close> stores its argument in \<open>s_scale_factor\<close> whatever the
  store does, and every later \<open>process_update\<close> computes its count with it.
  \<open>get_scale_factor\<close> reads the store, not \<open>s_scale_factor\<close>: after
  \<open>set_scale_factor v\<close> it returns \<open>v\<close> when the store opened, took the write and
  committed it, and the read succeeds; when the store did not open or the write
  failed, it returns what it returned before the call.
\<close>

theorem set_scale_factor_takes_effect:
  "s_scale_factor (uni_mouse_quadrature_set_scale_factor env scale w) = scale
   \<and> hw (process_update_at p j delta (uni_mouse_quadrature_set_scale_factor env scale w)) =
       hw w @ [Timer_set_counter_value (timer_group (s_quadratures w p j)) (timer_idx (s_quadratures w p j))
                 (process_update_units scale delta)]
   \<and> (open_err env = ESP_OK \<and> set_err env = ESP_OK \<and> commit_err env = ESP_OK
        \<and> open_err env' = ESP_OK \<and> get_err env' = ESP_OK \<longrightarrow>
        uni_mouse_quadrature_get_scale_factor env' (uni_mouse_quadrature_set_scale_factor env scale w) = scale)
   \<and> (open_err env \<noteq> ESP_OK \<or> set_err env \<noteq> ESP_OK \<longrightarrow>
        uni_mouse_quadrature_get_scale_factor env' (uni_mouse_quadrature_set_scale_factor env scale w) =
        uni_mouse_quadrature_get_scale_factor env' w)"
proof (intro conjI impI)
  show "s_scale_factor (uni_mouse_quadrature_set_scale_factor env scale w) = scale"
    by (simp add: set_scale_factor_simps)
  show "hw (process_update_at p j delta (uni_mouse_quadrature_set_scale_factor env scale w)) =
       hw w @ [Timer_set_counter_value (timer_group (s_quadratures w p j)) (timer_idx (s_quadratures w p j))
                 (process_update_units scale delta)]"
    by (simp add: set_scale_factor_simps set_scale_factor_quadratures)
next
  assume "open_err env = ESP_OK \<and> set_err env = ESP_OK \<and> commit_err env = ESP_OK
        \<and> open_err env' = ESP_OK \<and> get_err env' = ESP_OK"
  then show "uni_mouse_quadrature_get_scale_factor env' (uni_mouse_quadrature_set_scale_factor env scale w) = scale"
    by (simp add: uni_mouse_quadrature_get_scale_factor_def set_scale_factor_simps nvs_open_def
        nvs_get_u32_def)
next
  assume "open_err env \<noteq> ESP_OK \<or> set_err env \<noteq> ESP_OK"
  then have "nvs (uni_mouse_quadrature_set_scale_factor env scale w) = nvs w"
    by (auto simp: set_scale_factor_simps)
  then show "uni_mouse_quadrature_get_scale_factor env' (uni_mouse_quadrature_set_scale_factor env scale w) =
        uni_mouse_quadrature_get_scale_factor env' w"
    by (rule get_scale_factor_nvs)
qed

theorem set_scale_factor_takes_effect_witness:
  "open_err env_ok = ESP_OK \<and> set_err env_ok = ESP_OK \<and> commit_err env_ok = ESP_OK
   \<and> get_err env_ok = ESP_OK
   \<and> uni_mouse_quadrature_get_scale_factor env_ok (uni_mouse_quadrature_set_scale_factor env_ok 0x40000000 w_ex)
       = 0x40000000
   \<and> open_err env_fail \<noteq> ESP_OK
   \<and> s_scale_factor (uni_mouse_quadrature_set_scale_factor env_fail 0x40000000 w_ex) = 0x40000000
   \<and> uni_mouse_quadrature_get_scale_factor env_ok (uni_mouse_quadrature_set_scale_factor env_fail 0x40000000 w_ex)
       = uni_mouse_quadrature_get_scale_factor env_ok w_ex"
proof -
  have h1: "open_err env_ok = ESP_OK \<and> set_err env_ok = ESP_OK \<and> commit_err env_ok = ESP_OK
        \<and> open_err env_ok = ESP_OK \<and> get_err env_ok = ESP_OK"
    by (simp add: env_ok_def ESP_OK_def)
  have h2: "open_err env_fail \<noteq> ESP_OK"
    by (simp add: env_fail_def ESP_OK_def)
  from set_scale_factor_takes_effect [of env_ok "0x40000000" w_ex 0 0 0 env_ok]
       set_scale_factor_takes_effect [of env_fail "0x40000000" w_ex 0 0 0 env_ok] h1 h2
  show ?thesis by simp
qed

text \<open>
  C5 as stated fails when the store cannot be opened while setting the scale 2.0: the
  following \<open>get_scale_factor\<close>, on a store that works but holds no value, returns the
  default 1.0.
\<close>

theorem get_after_failed_set_counterexample:
  "uni_mouse_quadrature_get_scale_factor env_ok
     (uni_mouse_quadrature_set_scale_factor env_fail 0x40000000 w_ex) \<noteq> 0x40000000"
  by (simp add: uni_mouse_quadrature_get_scale_factor_def set_scale_factor_simps nvs_open_def
      nvs_get_u32_def env_ok_def env_fail_def ESP_OK_def w_ex_def DETAULT_SCALE_FACTOR_float_def)

section \<open>Claims about updates\<close>

text \<open>
  C6. No update, whatever the port and the deltas, changes the phase of any encoder;
  \<open>process_update\<close> never writes the phase. With delta 0 it leaves the whole encoder
  state (the count with it) as it was and sets the timer's counter to the idle value
  of 60 seconds of ticks, 750000.
\<close>

theorem update_never_writes_phase:
  "phase (s_quadratures (uni_mouse_quadrature_update PORT_MAX port_idx dx dy w) i j) =
     phase (s_quadratures w i j)
   \<and> phase (fst (process_update scale q delta)) = phase q
   \<and> fst (process_update scale q 0) = q
   \<and> snd (process_update scale q 0) =
       [Timer_set_counter_value (timer_group q) (timer_idx q) (Some (word_of_int (60 * ONE_SECOND)))]
   \<and> 60 * ONE_SECOND = 750000"
  by (simp add: update_keeps_phase process_update_state process_update_calls
      process_update_units_def ONE_SECOND_def)

text \<open>
  C7. For a valid port, \<open>update\<close> runs \<open>process_update\<close> on the horizontal encoder with
  \<open>dx\<close> and on the vertical encoder with \<open>- dy\<close>, and sets the two timers to the counts
  computed from \<open>dx\<close> and from \<open>- dy\<close>. With \<open>dx = 0\<close> and \<open>dy = -10\<close> the vertical
  direction becomes positive and its count 10, and the horizontal count and phase stay.
\<close>

theorem update_feeds_dx_and_negated_dy:
  assumes "0 \<le>s port_idx" and "port_idx <s PORT_MAX"
  shows "(let p = nat (sint port_idx);
              h = s_quadratures w p UNI_MOUSE_QUADRATURE_ENCODER_H;
              v = s_quadratures w p UNI_MOUSE_QUADRATURE_ENCODER_V;
              w' = uni_mouse_quadrature_update PORT_MAX port_idx dx dy w;
              h' = s_quadratures w' p UNI_MOUSE_QUADRATURE_ENCODER_H;
              v' = s_quadratures w' p UNI_MOUSE_QUADRATURE_ENCODER_V
          in h' = fst (process_update (s_scale_factor w) h dx)
           \<and> v' = fst (process_update (s_scale_factor w) v (- dy))
           \<and> hw w' = hw w @
                [Timer_set_counter_value (timer_group h) (timer_idx h)
                   (process_update_units (s_scale_factor w) dx),
                 Timer_set_counter_value (timer_group v) (timer_idx v)
                   (process_update_units (s_scale_factor w) (- dy))]
           \<and> (dx = 0 \<and> dy = - 10 \<longrightarrow>
                dir v' = PHASE_DIRECTION_POS \<and> value' v' = 10
                \<and> value' h' = value' h \<and> phase h' = phase h))"
  unfolding Let_def update_valid [OF assms]
  by (simp add: UNI_MOUSE_QUADRATURE_ENCODER_H_def UNI_MOUSE_QUADRATURE_ENCODER_V_def
      process_update_state word_sless_alt)

theorem update_feeds_dx_and_negated_dy_witness:
  "0 \<le>s (0 :: c_int) \<and> (0 :: c_int) <s 2
   \<and> s_quadratures (uni_mouse_quadrature_update 2 0 0 (- 10) w_ex) 0 UNI_MOUSE_QUADRATURE_ENCODER_V
       = q_ex\<lparr>value' := 10, dir := PHASE_DIRECTION_POS\<rparr>
   \<and> s_quadratures (uni_mouse_quadrature_update 2 0 0 (- 10) w_ex) 0 UNI_MOUSE_QUADRATURE_ENCODER_H
       = q_ex
   \<and> hw (uni_mouse_quadrature_update 2 0 0 (- 10) w_ex) =
       [Timer_set_counter_value 0 0 (Some 750000), Timer_set_counter_value 0 0 (Some 13)]"
proof -
  have h: "0 \<le>s (0 :: c_int)" "(0 :: c_int) <s 2" by (simp_all add: word_sless_alt)
  have u1: "process_update_units 0x3F800000 0 = Some 750000" by code_simp
  have u2: "process_update_units 0x3F800000 10 = Some 13" by code_simp
  have q: "s_quadratures w_ex 0 UNI_MOUSE_QUADRATURE_ENCODER_H = q_ex"
    "s_quadratures w_ex 0 UNI_MOUSE_QUADRATURE_ENCODER_V = q_ex"
    "s_scale_factor w_ex = 0x3F800000" "hw w_ex = []"
    by (simp_all add: w_ex_def)
  have t: "timer_group q_ex = 0" "timer_idx q_ex = 0" by (simp_all add: q_ex_def)
  from update_feeds_dx_and_negated_dy [OF h, of w_ex 0 "- 10"] h show ?thesis
    by (simp add: Let_def q t u1 u2 process_update_state word_sless_alt)
qed

section \<open>Claims about the port controller\<close>

text \<open>
  C8. For a port index that is negative or not below the maximum, \<open>setup_port\<close>,
  \<open>start\<close>, \<open>pause\<close> and \<open>update\<close> each return the program state unchanged but for one
  error line added to the log: no encoder, running flag, timer or pin is touched.
\<close>

theorem invalid_port_is_logged_noop:
  assumes "port_idx <s 0 \<or> PORT_MAX \<le>s port_idx"
  shows "uni_mouse_quadrature_setup_port PORT_MAX port_idx h v w =
           w\<lparr>logs := logs w @ [Loge ''uni_mouse_quadrature_setup_port: Invalid port idx=%d'' [sint port_idx]]\<rparr>
       \<and> uni_mouse_quadrature_start PORT_MAX port_idx w =
           w\<lparr>logs := logs w @ [Loge ''uni_mouse_quadrature_start: Invalid port idx=%d'' [sint port_idx]]\<rparr>
       \<and> uni_mouse_quadrature_pause PORT_MAX port_idx w =
           w\<lparr>logs := logs w @ [Loge ''uni_mouse_quadrature_pause: Invalid port idx=%d'' [sint port_idx]]\<rparr>
       \<and> uni_mouse_quadrature_update PORT_MAX port_idx dx dy w =
           w\<lparr>logs := logs w @ [Loge ''uni_mouse_quadrature_update: Invalid port idx=%d'' [sint port_idx]]\<rparr>"
  using assms
  by (simp add: uni_mouse_quadrature_setup_port_def uni_mouse_quadrature_start_def
      uni_mouse_quadrature_pause_def uni_mouse_quadrature_update_def)

theorem invalid_port_is_logged_noop_witness:
  "((- 1 :: c_int) <s 0 \<or> (2 :: c_int) \<le>s - 1) \<and> ((2 :: c_int) <s 0 \<or> (2 :: c_int) \<le>s 2)
   \<and> uni_mouse_quadrature_start 2 (- 1) w_ex =
        w_ex\<lparr>logs := [Loge ''uni_mouse_quadrature_start: Invalid port idx=%d'' [- 1]]\<rparr>
   \<and> uni_mouse_quadrature_pause 2 (- 1) w_ex =
        w_ex\<lparr>logs := [Loge ''uni_mouse_quadrature_pause: Invalid port idx=%d'' [- 1]]\<rparr>
   \<and> uni_mouse_quadrature_setup_port 2 2 (gpios q_ex) (gpios q_ex) w_ex =
        w_ex\<lparr>logs := [Loge ''uni_mouse_quadrature_setup_port: Invalid port idx=%d'' [2]]\<rparr>
   \<and> uni_mouse_quadrature_update 2 2 5 5 w_ex =
        w_ex\<lparr>logs := [Loge ''uni_mouse_quadrature_update: Invalid port idx=%d'' [2]]\<rparr>"
proof -
  have h1: "(- 1 :: c_int) <s 0 \<or> (2 :: c_int) \<le>s - 1" by (simp add: word_sless_alt)
  have h2: "(2 :: c_int) <s 0 \<or> (2 :: c_int) \<le>s 2" by simp
  have l: "logs w_ex = []" by (simp add: w_ex_def)
  from invalid_port_is_logged_noop [OF h1, of "gpios q_ex" "gpios q_ex" w_ex 0 0]
       invalid_port_is_logged_noop [OF h2, of "gpios q_ex" "gpios q_ex" w_ex 5 5] h1 h2
  show ?thesis by (simp add: l)
qed

text \<open>
  C9. For a valid port, \<open>start\<close> on a port whose timers are marked started and \<open>pause\<close>
  on a port whose timers are not return the program state as it was, with no call to
  the timer driver; so a second \<open>start\<close> or \<open>pause\<close> in a row changes nothing.
\<close>

theorem start_pause_idempotent:
  assumes "0 \<le>s port_idx" and "port_idx <s PORT_MAX"
  shows "(timer_started w (nat (sint port_idx)) \<longrightarrow> uni_mouse_quadrature_start PORT_MAX port_idx w = w)
       \<and> (\<not> timer_started w (nat (sint port_idx)) \<longrightarrow> uni_mouse_quadrature_pause PORT_MAX port_idx w = w)
       \<and> uni_mouse_quadrature_start PORT_MAX port_idx (uni_mouse_quadrature_start PORT_MAX port_idx w) =
           uni_mouse_quadrature_start PORT_MAX port_idx w
       \<and> uni_mouse_quadrature_pause PORT_MAX port_idx (uni_mouse_quadrature_pause PORT_MAX port_idx w) =
           uni_mouse_quadrature_pause PORT_MAX port_idx w"
  by (simp add: start_valid [OF assms] pause_valid [OF assms])

theorem start_pause_idempotent_witness:
  "0 \<le>s (1 :: c_int) \<and> (1 :: c_int) <s 2 \<and> 0 \<le>s (0 :: c_int) \<and> (0 :: c_int) <s 2
   \<and> timer_started w_ex (nat (sint (1 :: c_int))) \<and> uni_mouse_quadrature_start 2 1 w_ex = w_ex
   \<and> \<not> timer_started w_ex (nat (sint (0 :: c_int))) \<and> uni_mouse_quadrature_pause 2 0 w_ex = w_ex"
proof -
  have h1: "0 \<le>s (1 :: c_int)" "(1 :: c_int) <s 2" by (simp_all add: word_sless_alt word_sle_eq)
  have h0: "0 \<le>s (0 :: c_int)" "(0 :: c_int) <s 2" by (simp_all add: word_sless_alt)
  have t: "timer_started w_ex (nat (sint (1 :: c_int)))" "\<not> timer_started w_ex (nat (sint (0 :: c_int)))"
    by (simp_all add: w_ex_def)
  from start_pause_idempotent [OF h1, of w_ex] start_pause_idempotent [OF h0, of w_ex] h1 h0 t
  show ?thesis by simp
qed

section \<open>Claims about the count\<close>

text \<open>
  C10. In every state reached from \<open>init\<close> by events whose update deltas are of the
  delta range (the theorem takes every \<open>int32_t\<close> but \<open>INT32_MIN\<close>), the count of every
  encoder is non-negative. A turn of the stepper on a count that is zero or negative
  leaves the encoder and the whole program state as they were and writes no pin.
\<close>

theorem counts_never_negative:
  "(list_all bounded_deltas evs \<longrightarrow>
      0 \<le>s value' (s_quadratures (run PORT_MAX evs (uni_mouse_quadrature_init PORT_MAX env cpu_id w0)) i j))
   \<and> (value' q \<le>s 0 \<longrightarrow> process_quadrature q = (q, [], []))
   \<and> (value' (s_quadratures w (unat (ucast (drop_bit 16 arg) :: 16 word))
                 (unat (ucast (arg AND 0xffff) :: 16 word))) \<le>s 0 \<longrightarrow>
        timer_task_turn arg w = w)"
proof (intro conjI impI)
  assume "list_all bounded_deltas evs"
  then have "\<forall>ev \<in> set evs. bounded_deltas ev" by (simp add: list_all_iff)
  then show "0 \<le>s value' (s_quadratures (run PORT_MAX evs (uni_mouse_quadrature_init PORT_MAX env cpu_id w0)) i j)"
    by (intro run_nonneg) (simp_all add: init_values)
next
  assume "value' q \<le>s 0"
  then show "process_quadrature q = (q, [], [])" by (rule process_quadrature_idle)
next
  assume "value' (s_quadratures w (unat (ucast (drop_bit 16 arg) :: 16 word))
                 (unat (ucast (arg AND 0xffff) :: 16 word))) \<le>s 0"
  then show "timer_task_turn arg w = w" by (rule timer_task_turn_idle)
qed

theorem counts_never_negative_witness:
  "list_all bounded_deltas evs_ex
   \<and> 0 \<le>s value' (s_quadratures (run 2 evs_ex (uni_mouse_quadrature_init 2 env_ok 0 w_ex)) 0 1)
   \<and> value' q_neg \<le>s 0 \<and> process_quadrature q_neg = (q_neg, [], [])
   \<and> value' (s_quadratures w_neg (unat (ucast (drop_bit 16 (0x10001 :: uint32_t)) :: 16 word))
                 (unat (ucast ((0x10001 :: uint32_t) AND 0xffff) :: 16 word))) \<le>s 0
   \<and> timer_task_turn 0x10001 w_neg = w_neg"
proof -
  have h1: "list_all bounded_deltas evs_ex"
    by (simp add: evs_ex_def INT32_MIN_def)
  have h2: "value' q_neg \<le>s 0" by (simp add: q_neg_def word_sle_eq)
  have h3: "value' (s_quadratures w_neg (unat (ucast (drop_bit 16 (0x10001 :: uint32_t)) :: 16 word))
                 (unat (ucast ((0x10001 :: uint32_t) AND 0xffff) :: 16 word))) \<le>s 0"
    by (simp add: w_neg_def q_neg_def word_sle_eq)
  from counts_never_negative [of evs_ex 2 env_ok 0 w_ex 0 1 q_neg w_neg "0x10001"] h1 h2 h3
  show ?thesis by simp
qed

text \<open>
  Outside the delta range: with the negation of \<open>INT32_MIN\<close> taken to wrap around, an
  update with \<open>dx = INT32_MIN\<close> right after \<open>init\<close> leaves a negative horizontal count,
  on which the stepper then does nothing.
\<close>

lemma run_update_at_int32_min:
  "value' (s_quadratures (run 2 [Update 0 INT32_MIN 0] (uni_mouse_quadrature_init 2 env_ok 0 w_ex)) 0 0) <s 0"
  by (simp add: run_def update_valid word_sless_alt UNI_MOUSE_QUADRATURE_ENCODER_H_def
      UNI_MOUSE_QUADRATURE_ENCODER_V_def process_update_state INT32_MIN_def)

end
